(* ===== verification/Prelude.thy ===== *)
theory Prelude
  imports Main "HOL-Library.Multiset" "HOL-Library.List_Lexorder" "HOL-Library.Product_Lexorder" "HOL-Library.Char_ord" "HOL-Library.Code_Target_Nat" "HOL-Library.Code_Target_Int"
begin

text \<open>
  Shared ground of the development: the Rust standard-library operations the sources use on
  machine integers, orderings and iterators, with the lemmas every component needs about them.
  Machine integers are naturals below their bound; where an operation can leave the range the
  saturating or checked operation of the source is written out with the bound.
\<close>

named_theorems int_ops \<open>definitions of the machine-integer operations\<close>

section \<open>Machine integers\<close>

abbreviation u8_max :: nat where "u8_max \<equiv> 255"
abbreviation u16_max :: nat where "u16_max \<equiv> 65535"
abbreviation u32_max :: nat where "u32_max \<equiv> 4294967295"
abbreviation u64_max :: nat where "u64_max \<equiv> 18446744073709551615"
abbreviation usize_max :: nat where "usize_max \<equiv> u64_max"

text \<open>\<open>saturating_add\<close> and \<open>saturating_mul\<close> of an unsigned type with the given maximum; the
  unsigned \<open>saturating_sub\<close> is subtraction on naturals.\<close>

definition sat_add :: "nat \<Rightarrow> nat \<Rightarrow> nat \<Rightarrow> nat" where
  [int_ops]: "sat_add bnd a b = min bnd (a + b)"

definition sat_mul :: "nat \<Rightarrow> nat \<Rightarrow> nat \<Rightarrow> nat" where
  [int_ops]: "sat_mul bnd a b = min bnd (a * b)"

definition sat_sub :: "nat \<Rightarrow> nat \<Rightarrow> nat" where
  [int_ops]: "sat_sub a b = a - b"

definition checked_add :: "nat \<Rightarrow> nat \<Rightarrow> nat \<Rightarrow> nat option" where
  [int_ops]: "checked_add bnd a b = (if a + b \<le> bnd then Some (a + b) else None)"

definition div_ceil :: "nat \<Rightarrow> nat \<Rightarrow> nat" where
  [int_ops]: "div_ceil a b = a div b + (if a mod b = 0 then 0 else 1)"

definition clamp :: "nat \<Rightarrow> nat \<Rightarrow> nat \<Rightarrow> nat" where
  [int_ops]: "clamp lo hi x = (if x < lo then lo else if hi < x then hi else x)"

lemma div_ceil_le_iff: "0 < b \<Longrightarrow> div_ceil a b \<le> c \<longleftrightarrow> a \<le> c * b"
proof -
  assume b: "0 < b"
  have "a = a div b * b + a mod b" by simp
  moreover have "a mod b < b" using b by simp
  ultimately show ?thesis
    using b unfolding div_ceil_def
    by (smt (verit, best) add_cancel_right_right add_le_imp_le_left div_le_mono div_mult_self_is_m
        le_eq_less_or_eq less_mult_imp_div_less linorder_not_less mult.commute mult_le_mono2
        nat_mult_le_cancel_disj not_less_eq_eq plus_1_eq_Suc add.commute)
qed

lemma div_ceil_mono: "a \<le> a' \<Longrightarrow> 0 < b \<Longrightarrow> div_ceil a b \<le> div_ceil a' b"
  using div_ceil_le_iff [of b a "div_ceil a' b"] div_ceil_le_iff [of b a' "div_ceil a' b"] by simp

lemma clamp_bounds: "lo \<le> hi \<Longrightarrow> lo \<le> clamp lo hi x \<and> clamp lo hi x \<le> hi"
  by (simp add: clamp_def)

section \<open>Result values\<close>

text \<open>A \<open>Result<T, E>\<close> is \<open>'e + 't\<close> with \<open>Inl\<close> the error. \<open>bind\<close> is the \<open>?\<close> operator.\<close>

fun bind_res :: "'e + 'a \<Rightarrow> ('a \<Rightarrow> 'e + 'b) \<Rightarrow> 'e + 'b" where
  "bind_res (Inl e) f = Inl e"
| "bind_res (Inr x) f = f x"

lemma bind_res_Inr_conv: "bind_res r f = Inr y \<longleftrightarrow> (\<exists>x. r = Inr x \<and> f x = Inr y)"
  by (cases r) auto

lemma bind_res_Inl_conv: "bind_res r f = Inl e \<longleftrightarrow> r = Inl e \<or> (\<exists>x. r = Inr x \<and> f x = Inl e)"
  by (cases r) auto

definition ok_or :: "'e \<Rightarrow> 'a option \<Rightarrow> 'e + 'a" where
  "ok_or e x = (case x of None \<Rightarrow> Inl e | Some v \<Rightarrow> Inr v)"

lemma ok_or_simps [simp]: "ok_or e None = Inl e" "ok_or e (Some v) = Inr v"
  by (simp_all add: ok_or_def)

lemma ok_or_Inr_conv: "ok_or e x = Inr v \<longleftrightarrow> x = Some v"
  by (cases x) auto

text \<open>When the guarded shapes of the sources succeed.\<close>

lemma if_Inl_conv:
  "(if c then Inl e else r) = Inr y \<longleftrightarrow> \<not> c \<and> r = Inr y"
  "(if c then r else Inl e) = Inr y \<longleftrightarrow> c \<and> r = Inr y"
  by simp_all

lemma option_Inl_conv:
  "(case x of None \<Rightarrow> Inl e | Some v \<Rightarrow> f v) = Inr y \<longleftrightarrow> (\<exists>v. x = Some v \<and> f v = Inr y)"
  by (cases x) simp_all

lemma prod_res_conv:
  "(case p of (a, b) \<Rightarrow> f a b) = Inr y \<longleftrightarrow> (\<exists>a b. p = (a, b) \<and> f a b = Inr y)"
  by (cases p) simp

lemmas res_conv = bind_res_Inr_conv ok_or_Inr_conv if_Inl_conv option_Inl_conv

text \<open>Collecting an iterator of results stops at the first error.\<close>

fun collect_res :: "('e + 'a) list \<Rightarrow> 'e + 'a list" where
  "collect_res [] = Inr []"
| "collect_res (Inl e # rs) = Inl e"
| "collect_res (Inr x # rs) = bind_res (collect_res rs) (\<lambda>xs. Inr (x # xs))"

lemma collect_res_Inr: "collect_res rs = Inr xs \<longleftrightarrow> rs = map Inr xs"
proof (induction rs arbitrary: xs rule: collect_res.induct)
  case 1 then show ?case by auto
next
  case (2 e rs) then show ?case by (cases xs) auto
next
  case (3 x rs)
  then show ?case by (cases xs) (auto simp: bind_res_Inr_conv)
qed

section \<open>Orderings and comparators\<close>

datatype ordering = OrdLess | OrdEqual | OrdGreater

fun ord_reverse :: "ordering \<Rightarrow> ordering" where
  "ord_reverse OrdLess = OrdGreater"
| "ord_reverse OrdEqual = OrdEqual"
| "ord_reverse OrdGreater = OrdLess"

definition compare :: "'a::linorder \<Rightarrow> 'a \<Rightarrow> ordering" where
  "compare x y = (if x < y then OrdLess else if y < x then OrdGreater else OrdEqual)"

fun then_with :: "ordering \<Rightarrow> ordering \<Rightarrow> ordering" where
  "then_with OrdEqual r = r"
| "then_with OrdLess r = OrdLess"
| "then_with OrdGreater r = OrdGreater"

lemma compare_simps:
  "compare x y = OrdLess \<longleftrightarrow> x < y"
  "compare x y = OrdGreater \<longleftrightarrow> y < x"
  "compare x y = OrdEqual \<longleftrightarrow> x = y"
  by (auto simp: compare_def)

lemma then_with_simps:
  "then_with a b = OrdLess \<longleftrightarrow> a = OrdLess \<or> a = OrdEqual \<and> b = OrdLess"
  "then_with a b = OrdGreater \<longleftrightarrow> a = OrdGreater \<or> a = OrdEqual \<and> b = OrdGreater"
  "then_with a b = OrdEqual \<longleftrightarrow> a = OrdEqual \<and> b = OrdEqual"
  by (cases a; simp)+

text \<open>Stable sorting with a comparator (\<open>sort_by\<close>), and the iterator methods \<open>max_by\<close>, which
  keeps the last of several greatest elements, \<open>min_by_key\<close>, which keeps the first of several
  least ones, and \<open>max_by_key\<close>.\<close>

fun insert_by :: "('a \<Rightarrow> 'a \<Rightarrow> ordering) \<Rightarrow> 'a \<Rightarrow> 'a list \<Rightarrow> 'a list" where
  "insert_by cmp x [] = [x]"
| "insert_by cmp x (y # ys) =
     (if cmp x y = OrdGreater then y # insert_by cmp x ys else x # y # ys)"

definition sort_by :: "('a \<Rightarrow> 'a \<Rightarrow> ordering) \<Rightarrow> 'a list \<Rightarrow> 'a list" where
  "sort_by cmp xs = foldr (insert_by cmp) xs []"

fun max_by :: "('a \<Rightarrow> 'a \<Rightarrow> ordering) \<Rightarrow> 'a list \<Rightarrow> 'a option" where
  "max_by cmp [] = None"
| "max_by cmp (x # xs) =
     Some (foldl (\<lambda>m y. if cmp m y = OrdGreater then m else y) x xs)"

fun min_by_key :: "('a \<Rightarrow> 'k::linorder) \<Rightarrow> 'a list \<Rightarrow> 'a option" where
  "min_by_key f [] = None"
| "min_by_key f (x # xs) = Some (foldl (\<lambda>m y. if f y < f m then y else m) x xs)"

fun max_by_key :: "('a \<Rightarrow> 'k::linorder) \<Rightarrow> 'a list \<Rightarrow> 'a option" where
  "max_by_key f [] = None"
| "max_by_key f (x # xs) = Some (foldl (\<lambda>m y. if f m \<le> f y then y else m) x xs)"

text \<open>The contract \<open>sort_by\<close> and \<open>max_by\<close> ask of a comparator: a total preorder.\<close>

locale comparator =
  fixes cmp :: "'a \<Rightarrow> 'a \<Rightarrow> ordering"
  assumes cmp_sym: "cmp y x = ord_reverse (cmp x y)"
    and cmp_trans: "cmp x y \<noteq> OrdGreater \<Longrightarrow> cmp y z \<noteq> OrdGreater \<Longrightarrow> cmp x z \<noteq> OrdGreater"
begin

lemma cmp_total: "cmp x y = OrdGreater \<Longrightarrow> cmp y x \<noteq> OrdGreater"
  using cmp_sym [of y x] by simp

lemma cmp_refl: "cmp x x = OrdEqual"
  using cmp_sym [of x x] by (cases "cmp x x") simp_all

lemma set_insert_by: "set (insert_by cmp x xs) = insert x (set xs)"
  by (induction xs) auto

lemma mset_insert_by: "mset (insert_by cmp x xs) = add_mset x (mset xs)"
  by (induction xs) auto

lemma sorted_insert_by:
  "sorted_wrt (\<lambda>x y. cmp x y \<noteq> OrdGreater) xs \<Longrightarrow>
   sorted_wrt (\<lambda>x y. cmp x y \<noteq> OrdGreater) (insert_by cmp x xs)"
proof (induction xs)
  case (Cons y ys)
  then show ?case using cmp_trans [of x y] by (auto simp: set_insert_by dest: cmp_total)
qed simp

lemma mset_sort_by: "mset (sort_by cmp xs) = mset xs"
  by (induction xs) (simp_all add: sort_by_def mset_insert_by)

lemma set_sort_by: "set (sort_by cmp xs) = set xs"
  by (metis mset_sort_by set_mset_mset)

lemma length_sort_by: "length (sort_by cmp xs) = length xs"
  by (metis mset_sort_by size_mset)

lemma sorted_sort_by: "sorted_wrt (\<lambda>x y. cmp x y \<noteq> OrdGreater) (sort_by cmp xs)"
  by (induction xs) (simp_all add: sort_by_def sorted_insert_by)

lemma foldl_max_ge:
  "cmp z m \<noteq> OrdGreater \<or> z \<in> set xs \<Longrightarrow>
   cmp z (foldl (\<lambda>m y. if cmp m y = OrdGreater then m else y) m xs) \<noteq> OrdGreater"
proof (induction xs arbitrary: m)
  case Nil then show ?case by simp
next
  case (Cons y ys)
  let ?m = "if cmp m y = OrdGreater then m else y"
  have up: "cmp m ?m \<noteq> OrdGreater" "cmp y ?m \<noteq> OrdGreater"
    using cmp_refl [of m] cmp_refl [of y] cmp_total [of m y] by auto
  have "cmp z ?m \<noteq> OrdGreater \<or> z \<in> set ys"
    using Cons.prems up cmp_trans by (metis set_ConsD)
  from Cons.IH [OF this] show ?case by simp
qed

lemma foldl_max_mem:
  "foldl (\<lambda>m y. if cmp m y = OrdGreater then m else y) m xs \<in> insert m (set xs)"
  by (induction xs arbitrary: m) (simp_all, metis (no_types, lifting) insert_iff)

lemma max_by_Some: "max_by cmp xs = Some r \<Longrightarrow> r \<in> set xs \<and> (\<forall>x\<in>set xs. cmp x r \<noteq> OrdGreater)"
proof (cases xs)
  case (Cons a list)
  assume "max_by cmp xs = Some r"
  then have r: "r = foldl (\<lambda>m y. if cmp m y = OrdGreater then m else y) a list"
    using Cons by simp
  have "r \<in> set xs" using foldl_max_mem [of a list] r Cons by simp
  moreover have "\<forall>x\<in>set xs. cmp x r \<noteq> OrdGreater"
    using foldl_max_ge [of _ a list] r Cons cmp_refl [of a] by auto
  ultimately show ?thesis by blast
qed simp

lemma max_by_None: "max_by cmp xs = None \<longleftrightarrow> xs = []"
  by (cases xs) simp_all

end

lemma comparator_key: "comparator (\<lambda>x y. compare (f x) (f y))"
  by (rule comparator.intro) (auto simp: compare_def split: if_splits)

lemma comparator_key_rev: "comparator (\<lambda>x y. compare (f y) (f x))"
  by (rule comparator.intro) (auto simp: compare_def split: if_splits)

lemma comparator_then_with:
  assumes "comparator c" and "comparator d"
  shows "comparator (\<lambda>x y. then_with (c x y) (d x y))"
proof (rule comparator.intro)
  fix x y z
  show "then_with (c y x) (d y x) = ord_reverse (then_with (c x y) (d x y))"
    using comparator.cmp_sym [OF assms(1), of y x] comparator.cmp_sym [OF assms(2), of y x]
    by (cases "c x y") simp_all
  assume xy: "then_with (c x y) (d x y) \<noteq> OrdGreater"
    and yz: "then_with (c y z) (d y z) \<noteq> OrdGreater"
  have le: "c x y \<noteq> OrdGreater" "c y z \<noteq> OrdGreater"
    using xy yz by (auto simp: then_with_simps)
  have xz: "c x z \<noteq> OrdGreater" using comparator.cmp_trans [OF assms(1) le] .
  show "then_with (c x z) (d x z) \<noteq> OrdGreater"
  proof (cases "c x z = OrdEqual")
    case True
    then have zx: "c z x \<noteq> OrdGreater" using comparator.cmp_sym [OF assms(1), of z x] by simp
    have "c y x \<noteq> OrdGreater" using comparator.cmp_trans [OF assms(1) le(2) zx] .
    then have e1: "c x y = OrdEqual"
      using le comparator.cmp_sym [OF assms(1), of y x] by (cases "c x y") simp_all
    have "c z y \<noteq> OrdGreater" using comparator.cmp_trans [OF assms(1) zx le(1)] .
    then have e2: "c y z = OrdEqual"
      using le comparator.cmp_sym [OF assms(1), of z y] by (cases "c y z") simp_all
    show ?thesis using xy yz e1 e2 True comparator.cmp_trans [OF assms(2), of x y z] by simp
  next
    case False
    with xz show ?thesis by (cases "c x z") simp_all
  qed
qed

text \<open>The order of keys is such a comparator; so are compositions of key orders.\<close>

interpretation nat_order: comparator "compare :: nat \<Rightarrow> nat \<Rightarrow> ordering"
  by (rule comparator_key [of "\<lambda>x. x"])

section \<open>Least and greatest by key\<close>

lemma foldl_min_key:
  fixes f :: "'a \<Rightarrow> 'k::linorder"
  shows "foldl (\<lambda>m y. if f y < f m then y else m) m xs \<in> insert m (set xs) \<and>
   (\<forall>x\<in>insert m (set xs). f (foldl (\<lambda>m y. if f y < f m then y else m) m xs) \<le> f x)"
proof (induction xs arbitrary: m)
  case (Cons y ys)
  show ?case
    using Cons.IH [of "if f y < f m then y else m"] by (auto split: if_splits)
qed simp

lemma foldl_max_key:
  fixes f :: "'a \<Rightarrow> 'k::linorder"
  shows "foldl (\<lambda>m y. if f m \<le> f y then y else m) m xs \<in> insert m (set xs) \<and>
   (\<forall>x\<in>insert m (set xs). f x \<le> f (foldl (\<lambda>m y. if f m \<le> f y then y else m) m xs))"
proof (induction xs arbitrary: m)
  case (Cons y ys)
  show ?case
    using Cons.IH [of "if f m \<le> f y then y else m"] by (auto split: if_splits)
qed simp

lemma min_by_key_Some:
  "min_by_key f xs = Some r \<Longrightarrow> r \<in> set xs \<and> (\<forall>x\<in>set xs. f r \<le> f x)"
  using foldl_min_key [of f "hd xs" "tl xs"] by (cases xs) auto

lemma max_by_key_Some:
  "max_by_key f xs = Some r \<Longrightarrow> r \<in> set xs \<and> (\<forall>x\<in>set xs. f x \<le> f r)"
  using foldl_max_key [of f "hd xs" "tl xs"] by (cases xs) auto

lemma min_by_key_None: "min_by_key f xs = None \<longleftrightarrow> xs = []"
  by (cases xs) simp_all

lemma max_by_key_None: "max_by_key f xs = None \<longleftrightarrow> xs = []"
  by (cases xs) simp_all

section \<open>Lists\<close>

lemma lex_append_same_length:
  fixes xs ys :: "'a::linorder list"
  assumes "length xs = length ys" and "xs \<le> ys"
  shows "xs @ [z] \<le> ys @ [z]"
  using assms by (induction xs ys rule: list_induct2) auto

end
