(* ===== verification/Domain.thy ===== *)
theory Domain
  imports Prelude
begin

text \<open>
  The vocabulary of the review pipeline (\<open>crates/pipeline/src/domain.rs\<close>) and the position-phase
  policy (\<open>crates/pipeline/src/position_phase.rs\<close>): Elo profiles and the level bands they fall
  into, the sides of a game and of a review, imported moves, and the deterministic phase of a
  position.
\<close>

section \<open>Elo profiles\<close>

datatype user_level = Beginner | Intermediate | Advanced

datatype elo_profile = EloProfile (rating: nat)

definition elo_min :: nat where "elo_min = 100"
definition elo_max :: nat where "elo_max = 3500"

text \<open>\<open>TryFrom<u16>\<close>: the error is the message of the source.\<close>

definition elo_try_from :: "nat \<Rightarrow> string + elo_profile" where
  "elo_try_from r =
     (if elo_min \<le> r \<and> r \<le> elo_max then Inr (EloProfile r)
      else Inl ''Elo Profile must be between 100 and 3500'')"

definition level_from_elo :: "nat \<Rightarrow> user_level" where
  "level_from_elo elo = (if elo \<le> 1199 then Beginner else if elo \<le> 1899 then Intermediate else Advanced)"

fun coaching_focus :: "user_level \<Rightarrow> string" where
  "coaching_focus Beginner =
     ''Focus on forcing moves, one-move threats, hanging pieces, and simple opening principles.''"
| "coaching_focus Intermediate =
     ''Focus on candidate moves, tactical motifs, pawn breaks, and converting advantages into plans.''"
| "coaching_focus Advanced =
     ''Focus on calculation depth, prophylaxis, move-order nuance, structural tradeoffs, and practical decision quality.''"

record player_profile =
  profile_elo :: nat
  profile_level :: user_level
  profile_focus :: string

definition player_profile_from_elo :: "elo_profile \<Rightarrow> player_profile" where
  "player_profile_from_elo e =
     (let elo = rating e; level = level_from_elo elo
      in \<lparr>profile_elo = elo, profile_level = level, profile_focus = coaching_focus level\<rparr>)"

section \<open>Sides and moves\<close>

datatype move_side = White | Black

datatype review_side = ReviewWhite | ReviewBlack | ReviewBoth

fun review_includes :: "review_side \<Rightarrow> move_side \<Rightarrow> bool" where
  "review_includes ReviewWhite White = True"
| "review_includes ReviewBlack Black = True"
| "review_includes ReviewBoth _ = True"
| "review_includes _ _ = False"

record imported_move =
  im_ply :: nat
  im_move_number :: nat
  im_side :: move_side
  im_san :: string
  im_uci :: string
  im_position :: string

record reviewable_move =
  rm_ply :: nat
  rm_move_number :: nat
  rm_side :: move_side
  rm_san :: string

definition reviewable_from :: "imported_move \<Rightarrow> reviewable_move" where
  "reviewable_from m =
     \<lparr>rm_ply = im_ply m, rm_move_number = im_move_number m, rm_side = im_side m, rm_san = im_san m\<rparr>"

record game =
  g_white :: "string option"
  g_black :: "string option"
  g_event :: "string option"
  g_site :: "string option"
  g_result :: "string option"
  g_moves :: "imported_move list"
  g_final_position :: string
  g_is_terminal :: bool

record game_summary =
  sum_white :: "string option"
  sum_black :: "string option"
  sum_event :: "string option"
  sum_site :: "string option"
  sum_result :: "string option"
  sum_move_count :: nat

definition summary :: "game \<Rightarrow> game_summary" where
  "summary g =
     \<lparr>sum_white = g_white g, sum_black = g_black g, sum_event = g_event g, sum_site = g_site g,
      sum_result = g_result g, sum_move_count = div_ceil (length (g_moves g)) 2\<rparr>"

section \<open>The phase of a position\<close>

datatype position_phase = Opening | Middlegame | Endgame

text \<open>\<open>split_whitespace().next()\<close> on the recorded FEN, which is ASCII text.\<close>

definition ascii_space :: "char \<Rightarrow> bool" where
  "ascii_space c \<longleftrightarrow> c \<in> {CHR '' '', CHR 0x09, CHR 0x0A, CHR 0x0B, CHR 0x0C, CHR 0x0D}"

definition first_word :: "string \<Rightarrow> string" where
  "first_word s = takeWhile (\<lambda>c. \<not> ascii_space c) (dropWhile ascii_space s)"

definition to_ascii_lowercase :: "char \<Rightarrow> char" where
  "to_ascii_lowercase c =
     (if 65 \<le> (of_char c :: nat) \<and> (of_char c :: nat) \<le> 90 then char_of ((of_char c :: nat) + 32) else c)"

definition phase_units :: "char \<Rightarrow> nat" where
  "phase_units piece =
     (let p = to_ascii_lowercase piece in
      if p = CHR ''n'' \<or> p = CHR ''b'' then 1
      else if p = CHR ''r'' then 2
      else if p = CHR ''q'' then 4
      else 0)"

definition material_units :: "string \<Rightarrow> nat" where
  "material_units fen = sum_list (map phase_units (first_word fen))"

definition classify_position_phase :: "imported_move \<Rightarrow> position_phase" where
  "classify_position_phase m =
     (let units = material_units (im_position m) in
      if im_move_number m \<le> 12 \<and> 18 \<le> units then Opening
      else if units \<le> 8 then Endgame
      else Middlegame)"

section \<open>Properties\<close>

lemma elo_try_from_Inr: "elo_try_from r = Inr e \<longleftrightarrow> e = EloProfile r \<and> elo_min \<le> r \<and> r \<le> elo_max"
  by (auto simp: elo_try_from_def)

text \<open>The level bands are ordered: a higher rating never gives a lower band.\<close>

fun level_rank :: "user_level \<Rightarrow> nat" where
  "level_rank Beginner = 0"
| "level_rank Intermediate = 1"
| "level_rank Advanced = 2"

lemma level_from_elo_mono: "a \<le> b \<Longrightarrow> level_rank (level_from_elo a) \<le> level_rank (level_from_elo b)"
  by (auto simp: level_from_elo_def)

lemma review_includes_iff: "review_includes rs s \<longleftrightarrow> rs = ReviewBoth \<or> rs = ReviewWhite \<and> s = White \<or> rs = ReviewBlack \<and> s = Black"
  by (cases rs; cases s) simp_all

lemma material_units_append:
  "\<not> ascii_space c \<Longrightarrow> list_all (\<lambda>x. \<not> ascii_space x) w \<Longrightarrow>
   material_units (c # w) = phase_units c + material_units w"
  by (cases w) (auto simp: material_units_def first_word_def takeWhile_eq_all_conv list_all_iff)

end
