(* ===== verification/OrdMap.thy ===== *)
theory OrdMap
  imports Prelude
begin

text \<open>
  \<open>std::collections::BTreeMap\<close> as the sources use it: keyed lookup, insertion and iteration in
  ascending key order. The interface is the locale \<open>ordered_map\<close>; the model's maps are association
  lists kept strictly sorted by key. Insertion loops of the sources are lemmas of the interface.
\<close>

section \<open>The interface\<close>

locale ordered_map =
  fixes empty :: "'m"
    and insert :: "'k::linorder \<Rightarrow> 'v \<Rightarrow> 'm \<Rightarrow> 'm"
    and lookup :: "'m \<Rightarrow> 'k \<Rightarrow> 'v option"
    and entries :: "'m \<Rightarrow> ('k \<times> 'v) list"
    and invar :: "'m \<Rightarrow> bool"
  assumes invar_empty: "invar empty"
    and invar_insert: "invar m \<Longrightarrow> invar (insert k v m)"
    and lookup_empty: "lookup empty k = None"
    and lookup_insert: "invar m \<Longrightarrow> lookup (insert k v m) k' = (if k' = k then Some v else lookup m k')"
    and entries_lookup: "invar m \<Longrightarrow> (k, v) \<in> set (entries m) \<longleftrightarrow> lookup m k = Some v"
    and entries_sorted: "invar m \<Longrightarrow> sorted_wrt (<) (map fst (entries m))"
begin

lemma distinct_keys: "invar m \<Longrightarrow> distinct (map fst (entries m))"
  using entries_sorted strict_sorted_iff by blast

text \<open>The loop of the sources that keeps, for every key, the better of the value held and the
  value offered: \<open>worse a b\<close> says that \<open>b\<close> does not replace \<open>a\<close>.\<close>

lemma relax_fold_invar:
  "invar m \<Longrightarrow>
   invar (fold (\<lambda>(k, v) m. case lookup m k of
      Some e \<Rightarrow> if \<not> better v e then m else insert k v m | None \<Rightarrow> insert k v m) adds m)"
proof (induction adds arbitrary: m)
  case (Cons kv adds)
  obtain k v where kv: "kv = (k, v)" by (cases kv)
  have "invar (case lookup m k of Some e \<Rightarrow> if \<not> better v e then m else insert k v m
      | None \<Rightarrow> insert k v m)"
    using Cons.prems invar_insert by (simp split: option.splits)
  from Cons.IH [OF this] kv show ?case by simp
qed simp

lemma relax_fold_source:
  assumes "invar m"
    and "lookup (fold (\<lambda>(k, v) m. case lookup m k of
      Some e \<Rightarrow> if \<not> better v e then m else insert k v m | None \<Rightarrow> insert k v m) adds m) k = Some w"
  shows "lookup m k = Some w \<or> (k, w) \<in> set adds"
  using assms
proof (induction adds arbitrary: m)
  case (Cons kv adds)
  obtain k' v where kv: "kv = (k', v)" by (cases kv)
  let ?m = "case lookup m k' of Some e \<Rightarrow> if \<not> better v e then m else insert k' v m
      | None \<Rightarrow> insert k' v m"
  have inv: "invar ?m" using Cons.prems(1) invar_insert by (simp split: option.splits)
  have "lookup ?m k = Some w \<or> (k, w) \<in> set adds"
    using Cons.IH [OF inv] Cons.prems(2) kv by simp
  then show ?case
    using kv lookup_insert [OF Cons.prems(1), of k' v k] by (auto split: option.splits if_splits)
qed simp

lemma relax_fold_dominates:
  assumes "invar m"
    and trans: "\<And>a b c. \<not> better a b \<Longrightarrow> \<not> better b c \<Longrightarrow> \<not> better a c"
    and irrefl: "\<And>a. \<not> better a a" and asym: "\<And>a b. better a b \<Longrightarrow> \<not> better b a"
    and "lookup m k = Some v \<or> (k, v) \<in> set adds"
  shows "\<exists>w. lookup (fold (\<lambda>(k, v) m. case lookup m k of
      Some e \<Rightarrow> if \<not> better v e then m else insert k v m | None \<Rightarrow> insert k v m) adds m) k = Some w
    \<and> \<not> better v w"
  using assms(1,5)
proof (induction adds arbitrary: m v)
  case Nil then show ?case using irrefl by auto
next
  case (Cons kv adds)
  obtain k' v' where kv: "kv = (k', v')" by (cases kv)
  let ?m = "case lookup m k' of Some e \<Rightarrow> if \<not> better v' e then m else insert k' v' m
      | None \<Rightarrow> insert k' v' m"
  have inv: "invar ?m" using Cons.prems(1) invar_insert by (simp split: option.splits)
  have "\<exists>u. (lookup ?m k = Some u \<or> (k, u) \<in> set adds) \<and> \<not> better v u"
    using Cons.prems(2) kv lookup_insert [OF Cons.prems(1), of k' v' k] irrefl asym
    by (auto split: option.splits if_splits)
  then obtain u where u: "lookup ?m k = Some u \<or> (k, u) \<in> set adds" "\<not> better v u" by blast
  from Cons.IH [OF inv u(1)] u(2) trans kv show ?case by fastforce
qed

end

section \<open>Sorted association lists\<close>

type_synonym ('k, 'v) btree_map = "('k \<times> 'v) list"

fun bt_insert :: "'k::linorder \<Rightarrow> 'v \<Rightarrow> ('k, 'v) btree_map \<Rightarrow> ('k, 'v) btree_map" where
  "bt_insert k v [] = [(k, v)]"
| "bt_insert k v ((k', v') # m) =
     (if k < k' then (k, v) # (k', v') # m
      else if k = k' then (k, v) # m
      else (k', v') # bt_insert k v m)"

abbreviation bt_get :: "('k, 'v) btree_map \<Rightarrow> 'k \<Rightarrow> 'v option" where
  "bt_get \<equiv> map_of"

definition bt_invar :: "('k::linorder, 'v) btree_map \<Rightarrow> bool" where
  "bt_invar m \<longleftrightarrow> sorted_wrt (<) (map fst m)"

definition bt_values :: "('k, 'v) btree_map \<Rightarrow> 'v list" where
  "bt_values m = map snd m"

lemma keys_bt_insert: "set (map fst (bt_insert k v m)) = insert k (set (map fst m))"
proof (induction m)
  case (Cons e m)
  then show ?case by (cases e) auto
qed simp

lemma bt_insert_invar: "bt_invar m \<Longrightarrow> bt_invar (bt_insert k v m)"
proof (induction m)
  case (Cons e m)
  obtain k' v' where e: "e = (k', v')" by (cases e)
  show ?case
  proof (cases "k' < k")
    case True
    then have "bt_insert k v (e # m) = (k', v') # bt_insert k v m"
      by (auto simp: e)
    moreover have "bt_invar (bt_insert k v m)"
      using Cons by (simp add: bt_invar_def)
    moreover have "\<forall>x\<in>set (map fst (bt_insert k v m)). k' < x"
      unfolding keys_bt_insert using Cons.prems True by (auto simp: bt_invar_def e)
    ultimately show ?thesis by (simp add: bt_invar_def)
  next
    case False
    then show ?thesis using Cons.prems by (auto simp: bt_invar_def e)
  qed
qed (simp add: bt_invar_def)

lemma bt_get_insert: "bt_get (bt_insert k v m) k' = (if k' = k then Some v else bt_get m k')"
  by (induction m) auto

lemma bt_entries_get: "bt_invar m \<Longrightarrow> (k, v) \<in> set m \<longleftrightarrow> bt_get m k = Some v"
  using map_of_eq_Some_iff [of m k v] by (auto simp: bt_invar_def strict_sorted_iff)

text \<open>Removal, \<open>retain\<close> and the update of every value in place.\<close>

definition bt_remove :: "'k \<Rightarrow> ('k, 'v) btree_map \<Rightarrow> ('k, 'v) btree_map" where
  "bt_remove k m = filter (\<lambda>(k', v). k' \<noteq> k) m"

definition bt_retain :: "('k \<Rightarrow> 'v \<Rightarrow> bool) \<Rightarrow> ('k, 'v) btree_map \<Rightarrow> ('k, 'v) btree_map" where
  "bt_retain P m = filter (\<lambda>(k, v). P k v) m"

definition bt_map_values :: "('v \<Rightarrow> 'w) \<Rightarrow> ('k, 'v) btree_map \<Rightarrow> ('k, 'w) btree_map" where
  "bt_map_values f m = map (\<lambda>(k, v). (k, f v)) m"

lemma bt_invar_filter: "bt_invar m \<Longrightarrow> bt_invar (filter P m)"
  by (simp add: bt_invar_def sorted_wrt_map sorted_wrt_filter)

lemma bt_remove_invar: "bt_invar m \<Longrightarrow> bt_invar (bt_remove k m)"
  by (simp add: bt_remove_def bt_invar_filter)

lemma bt_retain_invar: "bt_invar m \<Longrightarrow> bt_invar (bt_retain P m)"
  by (simp add: bt_retain_def bt_invar_filter)

lemma bt_map_values_invar: "bt_invar m \<Longrightarrow> bt_invar (bt_map_values f m)"
  by (simp add: bt_invar_def bt_map_values_def sorted_wrt_map case_prod_beta)

lemma bt_get_remove: "bt_get (bt_remove k m) k' = (if k' = k then None else bt_get m k')"
  by (induction m) (auto simp: bt_remove_def)

lemma bt_get_map_values: "bt_get (bt_map_values f m) k = map_option f (bt_get m k)"
  by (induction m) (auto simp: bt_map_values_def)

lemma bt_get_retain:
  assumes "bt_invar m"
  shows "bt_get (bt_retain P m) k =
    (case bt_get m k of None \<Rightarrow> None | Some v \<Rightarrow> if P k v then Some v else None)"
proof -
  have "bt_get (bt_retain P m) k = Some v \<longleftrightarrow> bt_get m k = Some v \<and> P k v" for v
    using bt_entries_get [OF bt_retain_invar [OF assms], of k v P] bt_entries_get [OF assms, of k v]
    by (simp add: bt_retain_def)
  note eq = this
  show ?thesis
  proof (cases "bt_get m k")
    case None
    then have "bt_get (bt_retain P m) k \<noteq> Some v" for v using eq [of v] by simp
    then have "bt_get (bt_retain P m) k = None" by blast
    then show ?thesis using None by simp
  next
    case (Some v)
    then have *: "bt_get (bt_retain P m) k = Some u \<longleftrightarrow> u = v \<and> P k u" for u using eq [of u] by auto
    show ?thesis
    proof (cases "P k v")
      case True
      then show ?thesis using * [of v] Some by simp
    next
      case False
      then have "bt_get (bt_retain P m) k = None" using * by (metis not_Some_eq)
      then show ?thesis using Some False by simp
    qed
  qed
qed

lemma length_bt_insert:
  "bt_invar m \<Longrightarrow> length (bt_insert k v m) = (if bt_get m k = None then Suc (length m) else length m)"
proof (induction m)
  case (Cons e m)
  obtain k' v' where e: "e = (k', v')" by (cases e)
  have "k < k' \<Longrightarrow> bt_get m k = None"
    using Cons.prems by (force simp: bt_invar_def e map_of_eq_None_iff)
  then show ?case using Cons by (auto simp: e bt_invar_def)
qed simp

lemma length_bt_remove_le: "length (bt_remove k m) \<le> length m"
  by (simp add: bt_remove_def)

interpretation btree: ordered_map "[]" bt_insert "bt_get :: ('k::linorder, 'v) btree_map \<Rightarrow> _"
  "\<lambda>m. m" bt_invar
proof (unfold_locales, goal_cases)
  case 1 show ?case by (simp add: bt_invar_def)
next
  case (2 m k v) then show ?case by (rule bt_insert_invar)
next
  case (3 k) show ?case by simp
next
  case (4 m k v k') show ?case by (rule bt_get_insert)
next
  case (5 m k v) then show ?case by (rule bt_entries_get)
next
  case (6 m) then show ?case by (simp add: bt_invar_def)
qed

end
