(* ===== verification/Selector.thy ===== *)
theory Selector
  imports Domain OrdMap
begin

text \<open>
  The Critical Moment selector (\<open>crates/pipeline/src/critical_moment_selector.rs\<close>): candidates
  of one Game are collapsed to one representative per coaching episode, and a dynamic program over
  diversity states picks the plan of highest utility within the adaptive target. This theory holds
  the definitions; \<open>SelectorCollapse\<close> and \<open>SelectorPlan\<close> prove what they promise.
\<close>

section \<open>Data\<close>

definition HARD_MAXIMUM :: nat where "HARD_MAXIMUM = 10"
definition DIVERSITY_PENALTY :: int where "DIVERSITY_PENALTY = 80"

datatype highlight_grade = GradeGood | GradeGreat

datatype candidate_kind =
    CK_ForcedMateDeterioration | CK_GreatPositiveHighlight | CK_AdvantageLost | CK_NowWorse
  | CK_GoodPositiveHighlight | CK_AdvantageReduced | CK_StandingKept

fun priority_band :: "candidate_kind \<Rightarrow> int" where
  "priority_band CK_ForcedMateDeterioration = 1050"
| "priority_band CK_GreatPositiveHighlight = 900"
| "priority_band CK_AdvantageLost = 830"
| "priority_band CK_NowWorse = 730"
| "priority_band CK_GoodPositiveHighlight = 650"
| "priority_band CK_AdvantageReduced = 630"
| "priority_band CK_StandingKept = 480"

fun is_positive :: "candidate_kind \<Rightarrow> bool" where
  "is_positive CK_GreatPositiveHighlight = True"
| "is_positive CK_GoodPositiveHighlight = True"
| "is_positive _ = False"

fun from_positive_grade :: "highlight_grade \<Rightarrow> candidate_kind" where
  "from_positive_grade GradeGreat = CK_GreatPositiveHighlight"
| "from_positive_grade GradeGood = CK_GoodPositiveHighlight"

fun phase_index :: "position_phase \<Rightarrow> nat" where
  "phase_index Opening = 0"
| "phase_index Middlegame = 1"
| "phase_index Endgame = 2"

datatype episode_role = Decision | Continuation | Payoff

record coaching_episode =
  ep_id :: string
  ep_role :: episode_role

text \<open>\<open>evidence_strength\<close> is a \<open>u8\<close>; a candidate built by the extractor keeps it below 100.\<close>

record 't candidate =
  c_ply :: nat
  c_side :: move_side
  c_kind :: candidate_kind
  c_tactical :: bool
  c_phase :: position_phase
  c_strength :: nat
  c_episode :: "coaching_episode option"
  c_payload :: 't

definition priority :: "'t candidate \<Rightarrow> int" where
  "priority c = priority_band (c_kind c) + int (c_strength c)"

datatype episode_outcome = Retained | Collapsed nat | Suppressed

record candidate_trace =
  ct_ply :: nat
  ct_kind :: candidate_kind
  ct_strength :: nat
  ct_priority :: int
  ct_episode :: "coaching_episode option"
  ct_outcome :: episode_outcome
  ct_selected :: bool
  ct_priority_rank :: "nat option"
  ct_game_order :: "nat option"

record selector_trace =
  st_game_plies :: nat
  st_adaptive_target :: nat
  st_hard_maximum :: nat
  st_positive_required :: bool
  st_diversity_penalty :: int
  st_candidates :: "candidate_trace list"

record 't selection =
  selected :: "'t list"
  trace :: selector_trace

datatype selector_error = HardMaximum (target: nat) (hard_maximum: nat)

definition adaptive_target :: "nat \<Rightarrow> nat" where
  "adaptive_target game_plies = clamp 3 8 (2 + div_ceil game_plies 18)"

section \<open>Collapsing episodes\<close>

definition has_role :: "episode_role \<Rightarrow> 't candidate \<Rightarrow> bool" where
  "has_role r c \<longleftrightarrow> (case c_episode c of None \<Rightarrow> False | Some e \<Rightarrow> ep_role e = r)"

definition representative :: "'t candidate list \<Rightarrow> 't candidate option" where
  "representative grp =
     (case min_by_key c_ply (filter (has_role Decision) grp) of
        Some r \<Rightarrow> Some r
      | None \<Rightarrow> max_by_key c_ply (filter (has_role Payoff) grp))"

text \<open>The first loop: candidates without an episode are retained, the others are grouped by
  episode identifier.\<close>

fun partition_step ::
  "'t candidate \<Rightarrow> 't candidate list \<times> (string, 't candidate list) btree_map \<Rightarrow>
   't candidate list \<times> (string, 't candidate list) btree_map" where
  "partition_step c (retained, groups) =
     (case c_episode c of
        None \<Rightarrow> (retained @ [c], groups)
      | Some e \<Rightarrow>
          (retained,
           bt_insert (ep_id e)
             ((case bt_get groups (ep_id e) of None \<Rightarrow> [] | Some g \<Rightarrow> g) @ [c]) groups))"

definition collapse_all :: "nat \<Rightarrow> 't candidate list \<Rightarrow> (nat \<rightharpoonup> episode_outcome) \<Rightarrow> (nat \<rightharpoonup> episode_outcome)" where
  "collapse_all rep_ply grp outcomes =
     fold (\<lambda>c os. if c_ply c \<noteq> rep_ply then os(c_ply c \<mapsto> Collapsed rep_ply) else os) grp outcomes"

text \<open>The second loop: one group, in the order of the group identifiers.\<close>

fun group_step ::
  "'t candidate list \<Rightarrow> 't candidate list \<times> (nat \<rightharpoonup> episode_outcome) \<Rightarrow>
   't candidate list \<times> (nat \<rightharpoonup> episode_outcome)" where
  "group_step grp (retained, outcomes) =
     (case representative grp of
        None \<Rightarrow> (retained, fold (\<lambda>c os. os(c_ply c \<mapsto> Suppressed)) grp outcomes)
      | Some r \<Rightarrow> (retained @ [r], collapse_all (c_ply r) grp outcomes))"

definition collapse_episodes ::
  "'t candidate list \<Rightarrow> 't candidate list \<times> (nat \<rightharpoonup> episode_outcome)" where
  "collapse_episodes candidates =
     (let sorted_candidates = sort_key c_ply candidates;
          (retained0, groups) = fold partition_step sorted_candidates ([], []);
          (retained, outcomes) = fold group_step (bt_values groups) (retained0, Map.empty)
      in (sort_key c_ply retained, outcomes))"

section \<open>The dynamic program\<close>

record plan =
  utility :: int
  diversity_penalty :: int
  indices :: "nat list"

text \<open>The diversity state of a plan. Its derived order is lexicographic in the order of the
  fields; the counters are \<open>u8\<close>, and \<open>SelectorPlan\<close> shows that they stay within the target.\<close>

datatype sel_state =
  SelState (s_count: nat) (s_has_positive: bool) (s_tactical: "nat list") (s_phase: "nat list")
    (s_side: "nat list")

definition state_key :: "sel_state \<Rightarrow> nat \<times> bool \<times> nat list \<times> nat list \<times> nat list" where
  "state_key s = (s_count s, s_has_positive s, s_tactical s, s_phase s, s_side s)"

lemma state_key_inject: "state_key s = state_key t \<longleftrightarrow> s = t"
  by (auto simp: state_key_def intro: sel_state.expand)

instantiation sel_state :: linorder
begin

definition less_eq_sel_state :: "sel_state \<Rightarrow> sel_state \<Rightarrow> bool" where
  "less_eq_sel_state s t \<longleftrightarrow> state_key s \<le> state_key t"

definition less_sel_state :: "sel_state \<Rightarrow> sel_state \<Rightarrow> bool" where
  "less_sel_state s t \<longleftrightarrow> state_key s < state_key t"

instance
proof
  fix s t u :: sel_state
  show "s < t \<longleftrightarrow> s \<le> t \<and> \<not> t \<le> s"
    by (auto simp: less_eq_sel_state_def less_sel_state_def)
  show "s \<le> s" by (simp add: less_eq_sel_state_def)
  show "s \<le> t \<Longrightarrow> t \<le> u \<Longrightarrow> s \<le> u" by (auto simp: less_eq_sel_state_def)
  show "s \<le> t \<Longrightarrow> t \<le> s \<Longrightarrow> s = t"
    by (auto simp: less_eq_sel_state_def state_key_inject [symmetric])
  show "s \<le> t \<or> t \<le> s" by (auto simp: less_eq_sel_state_def)
qed

end

definition bump :: "nat \<Rightarrow> nat list \<Rightarrow> nat list" where
  "bump i xs = xs[i := xs ! i + 1]"

definition ordered_plies :: "plan \<Rightarrow> 't candidate list \<Rightarrow> nat list" where
  "ordered_plies p candidates = map (\<lambda>i. c_ply (candidates ! i)) (indices p)"

definition better :: "'t candidate list \<Rightarrow> plan \<Rightarrow> plan \<Rightarrow> bool" where
  "better candidates left right \<longleftrightarrow>
     utility left > utility right \<or>
     utility left = utility right \<and> ordered_plies left candidates < ordered_plies right candidates"

definition category_allowance :: "nat \<Rightarrow> nat" where
  "category_allowance t = max (div_ceil (sat_mul usize_max t 2) 3) 2 mod 256"

definition side_allowance :: "nat \<Rightarrow> nat" where
  "side_allowance t = max (div_ceil (sat_mul usize_max t 3) 4) 2 mod 256"

definition category_index :: "'t candidate \<Rightarrow> nat" where
  "category_index c = (if c_tactical c then 0 else 1)"

definition side_index :: "'t candidate \<Rightarrow> nat" where
  "side_index c = (if c_side c = Black then 1 else 0)"

text \<open>The body of the inner loop: one state and its plan extended by one candidate.\<close>

fun extend ::
  "nat \<Rightarrow> review_side \<Rightarrow> nat \<Rightarrow> 't candidate \<Rightarrow> sel_state \<times> plan \<Rightarrow> sel_state \<times> plan" where
  "extend tgt rs idx c (state, p) =
     (let count' = s_count state + 1;
          has_positive' = (s_has_positive state \<or> is_positive (c_kind c));
          tactical' = bump (category_index c) (s_tactical state);
          crossings1 = (if tactical' ! category_index c > category_allowance tgt then 1 else 0);
          phase' = bump (phase_index (c_phase c)) (s_phase state);
          crossings2 = crossings1 +
            (if phase' ! phase_index (c_phase c) > category_allowance tgt then 1 else 0);
          side' = (if rs = ReviewBoth then bump (side_index c) (s_side state) else s_side state);
          crossings = crossings2 +
            (if rs = ReviewBoth \<and> side' ! side_index c > side_allowance tgt then 1 else 0);
          penalty = crossings * DIVERSITY_PENALTY
      in (SelState count' has_positive' tactical' phase' side',
          \<lparr>utility = utility p + (priority c - penalty),
           diversity_penalty = diversity_penalty p + penalty,
           indices = indices p @ [idx]\<rparr>))"

definition initial_state :: sel_state where
  "initial_state = SelState 0 False [0, 0] [0, 0, 0] [0, 0]"

definition initial_plan :: plan where
  "initial_plan = \<lparr>utility = 0, diversity_penalty = 0, indices = []\<rparr>"

type_synonym plan_table = "(sel_state, plan) btree_map"

definition additions ::
  "nat \<Rightarrow> review_side \<Rightarrow> nat \<Rightarrow> 't candidate \<Rightarrow> plan_table \<Rightarrow> (sel_state \<times> plan) list" where
  "additions tgt rs idx c states =
     map (extend tgt rs idx c) (filter (\<lambda>(s, p). s_count s \<noteq> tgt) states)"

definition merge_additions ::
  "'t candidate list \<Rightarrow> (sel_state \<times> plan) list \<Rightarrow> plan_table \<Rightarrow> plan_table" where
  "merge_additions candidates adds states =
     fold (\<lambda>(s, p) m. case bt_get m s of
         Some existing \<Rightarrow> if \<not> better candidates p existing then m else bt_insert s p m
       | None \<Rightarrow> bt_insert s p m) adds states"

definition optimize_step ::
  "nat \<Rightarrow> review_side \<Rightarrow> 't candidate list \<Rightarrow> nat \<Rightarrow> plan_table \<Rightarrow> plan_table" where
  "optimize_step tgt rs candidates idx states =
     merge_additions candidates (additions tgt rs idx (candidates ! idx) states) states"

definition compare_plans ::
  "'t candidate list \<Rightarrow> sel_state \<times> plan \<Rightarrow> sel_state \<times> plan \<Rightarrow> ordering" where
  "compare_plans candidates l r =
     then_with (compare (s_count (fst l)) (s_count (fst r)))
       (then_with (compare (utility (snd l)) (utility (snd r)))
         (compare (ordered_plies (snd r) candidates) (ordered_plies (snd l) candidates)))"

definition optimize ::
  "'t candidate list \<Rightarrow> nat \<Rightarrow> bool \<Rightarrow> review_side \<Rightarrow> plan option" where
  "optimize candidates tgt positive_required rs =
     (let states = fold (optimize_step tgt rs candidates) [0..<length candidates]
                     [(initial_state, initial_plan)]
      in map_option snd
           (max_by (compare_plans candidates)
             (filter (\<lambda>(s, p). \<not> positive_required \<or> s_has_positive s) states)))"

section \<open>Selection\<close>

definition select ::
  "nat \<Rightarrow> review_side \<Rightarrow> 't candidate list \<Rightarrow> selector_error + 't selection" where
  "select game_plies rs candidates =
     (let tgt = adaptive_target game_plies in
      if tgt > HARD_MAXIMUM then Inl (HardMaximum tgt HARD_MAXIMUM)
      else
       let (collapsed, outcomes) = collapse_episodes candidates;
           positive_required = list_ex (\<lambda>c. is_positive (c_kind c)) collapsed;
           chosen = optimize collapsed tgt positive_required rs;
           selected_indices = (case chosen of None \<Rightarrow> [] | Some p \<Rightarrow> indices p);
           selected_plies = set (map (\<lambda>i. c_ply (collapsed ! i)) selected_indices);
           priority_order = sort_by (\<lambda>l r.
              then_with (compare (priority (collapsed ! r)) (priority (collapsed ! l)))
                (compare (c_ply (collapsed ! l)) (c_ply (collapsed ! r)))) selected_indices;
           priority_ranks = map_of (rev (map (\<lambda>(k, i). (c_ply (collapsed ! i), k + 1))
              (enumerate 0 priority_order)));
           game_order = map_of (rev (map (\<lambda>(k, i). (c_ply (collapsed ! i), k + 1))
              (enumerate 0 selected_indices)));
           penalty = (case chosen of None \<Rightarrow> 0 | Some p \<Rightarrow> diversity_penalty p);
           traces = map (\<lambda>c.
              \<lparr>ct_ply = c_ply c, ct_kind = c_kind c, ct_strength = c_strength c,
               ct_priority = priority c, ct_episode = c_episode c,
               ct_outcome = (case outcomes (c_ply c) of None \<Rightarrow> Retained | Some outcome \<Rightarrow> outcome),
               ct_selected = (c_ply c \<in> selected_plies),
               ct_priority_rank = priority_ranks (c_ply c),
               ct_game_order = game_order (c_ply c)\<rparr>) candidates
       in Inr \<lparr>selected = map (\<lambda>i. c_payload (collapsed ! i)) selected_indices,
               trace = \<lparr>st_game_plies = game_plies, st_adaptive_target = tgt,
                        st_hard_maximum = HARD_MAXIMUM,
                        st_positive_required = positive_required,
                        st_diversity_penalty = penalty,
                        st_candidates = traces\<rparr>\<rparr>)"

section \<open>The target\<close>

lemma adaptive_target_bounds: "3 \<le> adaptive_target n \<and> adaptive_target n \<le> 8"
  unfolding adaptive_target_def by (rule clamp_bounds) simp

lemma adaptive_target_mono: "m \<le> n \<Longrightarrow> adaptive_target m \<le> adaptive_target n"
  using div_ceil_mono [of m n 18] by (auto simp: adaptive_target_def clamp_def)

lemma adaptive_target_le_hard: "\<not> adaptive_target n > HARD_MAXIMUM"
  using adaptive_target_bounds [of n] by (simp add: HARD_MAXIMUM_def)

end
