(* ===== verification/SelectorPlan.thy ===== *)
theory SelectorPlan
  imports Selector
begin

text \<open>
  The dynamic program of the selector against its specification. A plan is specified by its list
  of candidate indices alone: its utility is the sum of the priorities less a closed-form penalty
  per diversity class over its allowance, with no reference to the order in which the program
  meets the candidates. The table the program keeps holds, for every diversity state that some
  feasible index list has, a best list with that state; the plan it returns is therefore best
  among all feasible lists.
\<close>

section \<open>Specification\<close>

definition cnt :: "('t candidate \<Rightarrow> nat) \<Rightarrow> 't candidate list \<Rightarrow> nat \<Rightarrow> nat list \<Rightarrow> nat" where
  "cnt f candidates k xs = length (filter (\<lambda>i. f (candidates ! i) = k) xs)"

definition excess :: "nat \<Rightarrow> (nat \<Rightarrow> nat) \<Rightarrow> nat \<Rightarrow> nat" where
  "excess n f a = sum_list (map (\<lambda>k. f k - a) [0..<n])"

definition spec_penalty :: "nat \<Rightarrow> review_side \<Rightarrow> 't candidate list \<Rightarrow> nat list \<Rightarrow> int" where
  "spec_penalty tgt rs candidates xs = DIVERSITY_PENALTY * int
     (excess 2 (\<lambda>k. cnt category_index candidates k xs) (category_allowance tgt) +
      excess 3 (\<lambda>k. cnt (\<lambda>c. phase_index (c_phase c)) candidates k xs) (category_allowance tgt) +
      (if rs = ReviewBoth
       then excess 2 (\<lambda>k. cnt side_index candidates k xs) (side_allowance tgt) else 0))"

definition spec_utility :: "nat \<Rightarrow> review_side \<Rightarrow> 't candidate list \<Rightarrow> nat list \<Rightarrow> int" where
  "spec_utility tgt rs candidates xs =
     sum_list (map (\<lambda>i. priority (candidates ! i)) xs) - spec_penalty tgt rs candidates xs"

definition has_positive_index :: "'t candidate list \<Rightarrow> nat list \<Rightarrow> bool" where
  "has_positive_index candidates xs \<longleftrightarrow> (\<exists>i\<in>set xs. is_positive (c_kind (candidates ! i)))"

definition state_of :: "review_side \<Rightarrow> 't candidate list \<Rightarrow> nat list \<Rightarrow> sel_state" where
  "state_of rs candidates xs =
     SelState (length xs) (has_positive_index candidates xs)
       (map (\<lambda>k. cnt category_index candidates k xs) [0..<2])
       (map (\<lambda>k. cnt (\<lambda>c. phase_index (c_phase c)) candidates k xs) [0..<3])
       (map (\<lambda>k. if rs = ReviewBoth then cnt side_index candidates k xs else 0) [0..<2])"

definition plan_of :: "nat \<Rightarrow> review_side \<Rightarrow> 't candidate list \<Rightarrow> nat list \<Rightarrow> plan" where
  "plan_of tgt rs candidates xs =
     \<lparr>utility = spec_utility tgt rs candidates xs,
      diversity_penalty = spec_penalty tgt rs candidates xs, indices = xs\<rparr>"

definition feasible :: "nat \<Rightarrow> nat \<Rightarrow> nat list \<Rightarrow> bool" where
  "feasible n tgt xs \<longleftrightarrow> sorted_wrt (<) xs \<and> (\<forall>i\<in>set xs. i < n) \<and> length xs \<le> tgt"

section \<open>One extension\<close>

lemma bump_map: "i < n \<Longrightarrow> bump i (map f [0..<n]) = map (f(i := f i + 1)) [0..<n]"
  by (auto simp: bump_def intro!: nth_equalityI)

lemma cnt_snoc: "cnt f cs k (xs @ [i]) = cnt f cs k xs + (if f (cs ! i) = k then 1 else 0)"
  by (simp add: cnt_def)

lemma cnt_snoc_upd: "(\<lambda>k. cnt f cs k (xs @ [i])) =
   (\<lambda>k. cnt f cs k xs)(f (cs ! i) := cnt f cs (f (cs ! i)) xs + 1)"
  by (auto simp: cnt_snoc fun_eq_iff)

lemma bump_cnt:
  "f (cs ! i) < n \<Longrightarrow>
   bump (f (cs ! i)) (map (\<lambda>k. cnt f cs k xs) [0..<n]) = map (\<lambda>k. cnt f cs k (xs @ [i])) [0..<n]"
  by (simp add: bump_map cnt_snoc_upd)

lemma excess_Suc: "excess (Suc n) f a = excess n f a + (f n - a)"
  by (simp add: excess_def)

lemma excess_cong: "(\<And>k. k < n \<Longrightarrow> f k = g k) \<Longrightarrow> excess n f a = excess n g a"
  unfolding excess_def by (metis (mono_tags, lifting) atLeastLessThan_iff map_cong set_upt)

lemma excess_bump:
  "j < n \<Longrightarrow> excess n (f(j := f j + 1)) a = excess n f a + (if f j + 1 > a then 1 else 0)"
proof (induction n)
  case (Suc n)
  show ?case
  proof (cases "j = n")
    case True
    then have eq: "excess n (f(j := f j + 1)) a = excess n f a" by (intro excess_cong) simp
    show ?thesis unfolding excess_Suc eq using True by (auto simp: Suc_diff_le)
  next
    case False
    then show ?thesis using Suc by (auto simp: excess_Suc)
  qed
qed simp

lemma excess_cnt:
  assumes "f (cs ! i) < n"
  shows "excess n (\<lambda>k. cnt f cs k (xs @ [i])) a =
   excess n (\<lambda>k. cnt f cs k xs) a + (if cnt f cs (f (cs ! i)) (xs @ [i]) > a then 1 else 0)"
proof -
  have "cnt f cs (f (cs ! i)) (xs @ [i]) = cnt f cs (f (cs ! i)) xs + 1"
    by (simp add: cnt_snoc)
  then show ?thesis unfolding cnt_snoc_upd
    using excess_bump [OF assms, of "\<lambda>k. cnt f cs k xs" a] by simp
qed

lemma nth_map_upt0: "j < n \<Longrightarrow> map f [0..<n] ! j = f j"
  by simp

lemma index_bounds: "category_index c < 2" "phase_index p < 3" "side_index c < 2"
  by (auto simp: category_index_def side_index_def) (cases p; simp)

lemma extend_plan_of:
  "extend tgt rs i (cs ! i) (state_of rs cs xs, plan_of tgt rs cs xs) =
   (state_of rs cs (xs @ [i]), plan_of tgt rs cs (xs @ [i]))"
proof -
  let ?ph = "\<lambda>c. phase_index (c_phase c)"
  note b = index_bounds
  note bumps = bump_cnt [of category_index cs i 2 xs, OF b(1)] bump_cnt [of ?ph cs i 3 xs, OF b(2)]
  have side: "(if rs = ReviewBoth
        then bump (side_index (cs ! i))
          (map (\<lambda>k. if rs = ReviewBoth then cnt side_index cs k xs else 0) [0..<2])
        else map (\<lambda>k. if rs = ReviewBoth then cnt side_index cs k xs else 0) [0..<2]) =
      map (\<lambda>k. if rs = ReviewBoth then cnt side_index cs k (xs @ [i]) else 0) [0..<2]"
    using bump_cnt [of side_index cs i 2 xs, OF b(3)] by simp
  have nths: "map f [0..<2] ! category_index (cs ! i) = f (category_index (cs ! i))"
    "map f [0..<3] ! ?ph (cs ! i) = f (?ph (cs ! i))"
    "map f [0..<2] ! side_index (cs ! i) = f (side_index (cs ! i))" for f :: "nat \<Rightarrow> nat"
    by (rule nth_map_upt0, rule b)+
  have pos: "has_positive_index cs (xs @ [i]) \<longleftrightarrow>
      has_positive_index cs xs \<or> is_positive (c_kind (cs ! i))"
    by (auto simp: has_positive_index_def)
  show ?thesis
    unfolding state_of_def plan_of_def extend.simps Let_def sel_state.sel plan.simps
      bumps side nths spec_utility_def spec_penalty_def
      excess_cnt [of category_index cs i 2 xs, OF b(1)] excess_cnt [of ?ph cs i 3 xs, OF b(2)]
      excess_cnt [of side_index cs i 2 xs, OF b(3)] pos
    by (auto simp: algebra_simps)
qed

section \<open>The order on plans\<close>

lemma better_irrefl: "\<not> better cs p p"
  by (simp add: better_def)

lemma better_asym: "better cs p q \<Longrightarrow> \<not> better cs q p"
  by (auto simp: better_def)

lemma not_better_trans: "\<not> better cs p q \<Longrightarrow> \<not> better cs q r \<Longrightarrow> \<not> better cs p r"
  by (auto simp: better_def)

lemma not_better_iff:
  "\<not> better cs p q \<longleftrightarrow> utility p < utility q \<or>
   utility p = utility q \<and> ordered_plies q cs \<le> ordered_plies p cs"
  by (auto simp: better_def)

lemma spec_utility_snoc_state:
  assumes "state_of rs cs xs = state_of rs cs ys"
  shows "spec_utility tgt rs cs (xs @ [i]) - spec_utility tgt rs cs xs =
         spec_utility tgt rs cs (ys @ [i]) - spec_utility tgt rs cs ys"
proof -
  have gain: "spec_utility tgt rs cs (zs @ [i]) - spec_utility tgt rs cs zs =
      utility (snd (extend tgt rs i (cs ! i) (state_of rs cs zs, \<lparr>utility = 0, diversity_penalty = 0, indices = []\<rparr>)))"
    for zs
    using arg_cong [OF extend_plan_of [of tgt rs i cs zs], of "\<lambda>sp. utility (snd sp)"]
    by (simp add: plan_of_def Let_def)
  show ?thesis unfolding gain assms by simp
qed

lemma not_better_snoc:
  assumes st: "state_of rs cs xs = state_of rs cs ys"
    and nb: "\<not> better cs (plan_of tgt rs cs xs) (plan_of tgt rs cs ys)"
  shows "\<not> better cs (plan_of tgt rs cs (xs @ [i])) (plan_of tgt rs cs (ys @ [i]))"
proof -
  have len: "length ys = length xs" using st by (simp add: state_of_def)
  have "ordered_plies (plan_of tgt rs cs (zs @ [i])) cs =
      ordered_plies (plan_of tgt rs cs zs) cs @ [c_ply (cs ! i)]" for zs
    by (simp add: plan_of_def ordered_plies_def)
  moreover have "length (ordered_plies (plan_of tgt rs cs ys) cs) =
      length (ordered_plies (plan_of tgt rs cs xs) cs)"
    using len by (simp add: ordered_plies_def plan_of_def)
  ultimately show ?thesis
    using nb spec_utility_snoc_state [OF st, of tgt i]
    unfolding not_better_iff by (auto simp: plan_of_def intro: lex_append_same_length)
qed

section \<open>The table invariant\<close>

definition table_ok ::
  "nat \<Rightarrow> review_side \<Rightarrow> 't candidate list \<Rightarrow> nat \<Rightarrow> plan_table \<Rightarrow> bool" where
  "table_ok tgt rs cs k m \<longleftrightarrow>
     bt_invar m \<and>
     (\<forall>s p. bt_get m s = Some p \<longrightarrow>
        feasible k tgt (indices p) \<and> s = state_of rs cs (indices p) \<and>
        p = plan_of tgt rs cs (indices p)) \<and>
     (\<forall>xs. feasible k tgt xs \<longrightarrow>
        (\<exists>p. bt_get m (state_of rs cs xs) = Some p \<and> \<not> better cs (plan_of tgt rs cs xs) p))"

lemma table_entry: "table_ok tgt rs cs k m \<Longrightarrow> (s, p) \<in> set m \<longleftrightarrow> bt_get m s = Some p"
  unfolding table_ok_def by (elim conjE, rule bt_entries_get)

lemma table_ok_init: "table_ok tgt rs cs 0 [(initial_state, initial_plan)]"
proof -
  have c0: "cnt f cs k [] = 0" for f k by (simp add: cnt_def)
  have e0: "excess n (\<lambda>k. 0) a = 0" for n a by (induction n) (simp_all add: excess_def)
  have u: "map (\<lambda>k. 0::nat) [0..<2] = [0, 0]" "map (\<lambda>k. 0::nat) [0..<3] = [0, 0, 0]"
    by (simp_all add: numeral_2_eq_2 numeral_3_eq_3)
  have s: "state_of rs cs [] = initial_state" "plan_of tgt rs cs [] = initial_plan"
    unfolding state_of_def plan_of_def spec_utility_def spec_penalty_def c0 e0 u initial_state_def
      initial_plan_def has_positive_index_def if_cancel by simp_all
  have f0: "feasible 0 tgt xs \<longleftrightarrow> xs = []" for xs by (cases xs) (auto simp: feasible_def)
  have i0: "indices initial_plan = []" by (simp add: initial_plan_def)
  have g: "bt_get [(initial_state, initial_plan)] s = Some p \<longleftrightarrow> s = initial_state \<and> p = initial_plan"
    for s p by auto
  have inv: "bt_invar [(initial_state, initial_plan)]" by (simp add: bt_invar_def)
  show ?thesis
    unfolding table_ok_def g f0 using s better_irrefl [of cs initial_plan] i0 inv by metis
qed

lemma feasible_Suc:
  "feasible (Suc k) tgt xs \<longleftrightarrow>
   feasible k tgt xs \<or> (\<exists>ys. xs = ys @ [k] \<and> feasible k tgt ys \<and> length ys < tgt)"
proof
  assume f: "feasible (Suc k) tgt xs"
  show "feasible k tgt xs \<or> (\<exists>ys. xs = ys @ [k] \<and> feasible k tgt ys \<and> length ys < tgt)"
  proof (cases xs rule: rev_cases)
    case Nil then show ?thesis by (simp add: feasible_def)
  next
    case (snoc ys i)
    with f have "\<forall>j\<in>set ys. j < i" "i \<le> k" "sorted_wrt (<) ys" "length ys < tgt"
      by (auto simp: feasible_def sorted_wrt_append)
    with snoc show ?thesis by (cases "i = k") (auto simp: feasible_def sorted_wrt_append)
  qed
next
  assume "feasible k tgt xs \<or> (\<exists>ys. xs = ys @ [k] \<and> feasible k tgt ys \<and> length ys < tgt)"
  then show "feasible (Suc k) tgt xs"
    by (auto simp: feasible_def sorted_wrt_append less_Suc_eq)
qed

lemma additions_source:
  assumes ok: "table_ok tgt rs cs k m" and "(s, p) \<in> set (additions tgt rs k (cs ! k) m)"
  shows "feasible (Suc k) tgt (indices p) \<and> s = state_of rs cs (indices p) \<and>
    p = plan_of tgt rs cs (indices p)"
proof -
  obtain s0 p0 where in_m: "(s0, p0) \<in> set m" and ne: "s_count s0 \<noteq> tgt"
    and ext: "(s, p) = extend tgt rs k (cs ! k) (s0, p0)"
    using assms(2) unfolding additions_def by fastforce
  have "bt_get m s0 = Some p0"
    using in_m table_entry [OF ok] by simp
  then have old: "feasible k tgt (indices p0)" "s0 = state_of rs cs (indices p0)"
    "p0 = plan_of tgt rs cs (indices p0)"
    using ok by (auto simp: table_ok_def)
  have sp: "(s, p) = (state_of rs cs (indices p0 @ [k]), plan_of tgt rs cs (indices p0 @ [k]))"
    using ext old(2,3) extend_plan_of [of tgt rs k cs "indices p0"] by simp
  have ind: "indices p = indices p0 @ [k]" using sp by (simp add: plan_of_def)
  have "length (indices p0) < tgt"
    using old(1,2) ne by (auto simp: feasible_def state_of_def le_less)
  then show ?thesis using old(1) sp ind by (auto simp: feasible_Suc)
qed

lemma additions_cover:
  assumes ok: "table_ok tgt rs cs k m" and "feasible k tgt ys" and "length ys < tgt"
  shows "\<exists>p. (state_of rs cs (ys @ [k]), p) \<in> set (additions tgt rs k (cs ! k) m) \<and>
    \<not> better cs (plan_of tgt rs cs (ys @ [k])) p"
proof -
  obtain p where p: "bt_get m (state_of rs cs ys) = Some p"
    "\<not> better cs (plan_of tgt rs cs ys) p"
    using ok assms(2) by (auto simp: table_ok_def)
  then have old: "state_of rs cs ys = state_of rs cs (indices p)" "p = plan_of tgt rs cs (indices p)"
    using ok by (auto simp: table_ok_def)
  have "(state_of rs cs ys, p) \<in> set m"
    using p(1) table_entry [OF ok] by simp
  moreover have "s_count (state_of rs cs ys) \<noteq> tgt"
    using assms(3) by (simp add: state_of_def)
  ultimately have "extend tgt rs k (cs ! k) (state_of rs cs ys, p) \<in>
      set (additions tgt rs k (cs ! k) m)"
    unfolding additions_def by force
  moreover have "extend tgt rs k (cs ! k) (state_of rs cs ys, p) =
      (state_of rs cs (indices p @ [k]), plan_of tgt rs cs (indices p @ [k]))"
    using extend_plan_of [of tgt rs k cs "indices p"] old by simp
  moreover have "state_of rs cs (indices p @ [k]) = state_of rs cs (ys @ [k])"
    using extend_plan_of [of tgt rs k cs "indices p"] extend_plan_of [of tgt rs k cs ys] old(1)
    by (simp add: Let_def)
  moreover have "\<not> better cs (plan_of tgt rs cs (ys @ [k])) (plan_of tgt rs cs (indices p @ [k]))"
    using not_better_snoc [OF old(1)] p(2) old(2) by metis
  ultimately show ?thesis by metis
qed

lemma optimize_step_ok:
  assumes ok: "table_ok tgt rs cs k m"
  shows "table_ok tgt rs cs (Suc k) (optimize_step tgt rs cs k m)"
proof -
  let ?adds = "additions tgt rs k (cs ! k) m"
  let ?m = "optimize_step tgt rs cs k m"
  have inv: "bt_invar m" using ok by (simp add: table_ok_def)
  have dom: "\<exists>w. bt_get ?m s = Some w \<and> \<not> better cs v w"
    if "bt_get m s = Some v \<or> (s, v) \<in> set ?adds" for s v
    unfolding optimize_step_def merge_additions_def
    by (rule btree.relax_fold_dominates, rule inv, erule (1) not_better_trans,
        rule better_irrefl, erule better_asym, rule that)
  have inv': "bt_invar ?m"
    unfolding optimize_step_def merge_additions_def using inv by (rule btree.relax_fold_invar)
  have src: "bt_get ?m s = Some p \<Longrightarrow> bt_get m s = Some p \<or> (s, p) \<in> set ?adds" for s p
    unfolding optimize_step_def merge_additions_def by (rule btree.relax_fold_source [OF inv])
  have "feasible (Suc k) tgt (indices p) \<and> s = state_of rs cs (indices p) \<and>
      p = plan_of tgt rs cs (indices p)" if "bt_get ?m s = Some p" for s p
    using src [OF that]
  proof
    assume "bt_get m s = Some p"
    then show ?thesis using ok by (auto simp: table_ok_def feasible_Suc)
  qed (rule additions_source [OF ok])
  moreover have "\<exists>p. bt_get ?m (state_of rs cs xs) = Some p \<and> \<not> better cs (plan_of tgt rs cs xs) p"
    if "feasible (Suc k) tgt xs" for xs
  proof -
    have "\<exists>q. (bt_get m (state_of rs cs xs) = Some q \<or> (state_of rs cs xs, q) \<in> set ?adds) \<and>
        \<not> better cs (plan_of tgt rs cs xs) q"
      using that ok additions_cover [OF ok] unfolding feasible_Suc table_ok_def by metis
    then obtain q where q: "bt_get m (state_of rs cs xs) = Some q \<or> (state_of rs cs xs, q) \<in> set ?adds"
      "\<not> better cs (plan_of tgt rs cs xs) q" by blast
    show ?thesis
      using dom [OF q(1)] q(2) not_better_trans by metis
  qed
  ultimately show ?thesis using inv' by (auto simp: table_ok_def)
qed

lemma table_ok_final:
  "table_ok tgt rs cs n (fold (optimize_step tgt rs cs) [0..<n] [(initial_state, initial_plan)])"
  by (induction n) (simp_all add: table_ok_init optimize_step_ok)

section \<open>The plan returned\<close>

lemma compare_plans_comparator: "comparator (compare_plans cs)"
  unfolding compare_plans_def
  by (intro comparator_then_with comparator_key [of "\<lambda>x. s_count (fst x)"]
      comparator_key [of "\<lambda>x. utility (snd x)"]
      comparator_key_rev [of "\<lambda>x. ordered_plies (snd x) cs"])

interpretation plan_order: comparator "compare_plans cs" for cs
  by (rule compare_plans_comparator)

text \<open>What it means for a feasible list to be at least as good as another: longer first, then of
  higher utility, then earlier.\<close>

definition at_least_as_good ::
  "nat \<Rightarrow> review_side \<Rightarrow> 't candidate list \<Rightarrow> nat list \<Rightarrow> nat list \<Rightarrow> bool" where
  "at_least_as_good tgt rs cs xs ys \<longleftrightarrow>
     length ys < length xs \<or>
     length ys = length xs \<and>
       (spec_utility tgt rs cs ys < spec_utility tgt rs cs xs \<or>
        spec_utility tgt rs cs ys = spec_utility tgt rs cs xs \<and>
          map (\<lambda>i. c_ply (cs ! i)) xs \<le> map (\<lambda>i. c_ply (cs ! i)) ys)"

lemma optimize_Some:
  assumes "optimize cs tgt req rs = Some p"
  shows "feasible (length cs) tgt (indices p)"
    and "p = plan_of tgt rs cs (indices p)"
    and "req \<Longrightarrow> has_positive_index cs (indices p)"
    and "\<And>ys. feasible (length cs) tgt ys \<Longrightarrow> (req \<Longrightarrow> has_positive_index cs ys) \<Longrightarrow>
           at_least_as_good tgt rs cs (indices p) ys"
proof -
  let ?m = "fold (optimize_step tgt rs cs) [0..<length cs] [(initial_state, initial_plan)]"
  let ?ok = "\<lambda>(s, p). \<not> req \<or> s_has_positive s"
  have ok: "table_ok tgt rs cs (length cs) ?m" by (rule table_ok_final)
  obtain s where mx: "max_by (compare_plans cs) (filter ?ok ?m) = Some (s, p)"
    using assms by (auto simp: optimize_def Let_def)
  from plan_order.max_by_Some [OF mx] have in_m: "(s, p) \<in> set ?m" and req: "req \<Longrightarrow> s_has_positive s"
    and best: "\<And>x. x \<in> set ?m \<Longrightarrow> ?ok x \<Longrightarrow> compare_plans cs x (s, p) \<noteq> OrdGreater"
    by auto
  have "bt_get ?m s = Some p" using in_m table_entry [OF ok] by simp
  then have st: "s = state_of rs cs (indices p)" and fe: "feasible (length cs) tgt (indices p)"
    and pl: "p = plan_of tgt rs cs (indices p)"
    using ok unfolding table_ok_def by blast+
  show "feasible (length cs) tgt (indices p)" "p = plan_of tgt rs cs (indices p)" by fact+
  show "has_positive_index cs (indices p)" if req using req [OF that] st by (simp add: state_of_def)
  fix ys assume ys: "feasible (length cs) tgt ys" and "req \<Longrightarrow> has_positive_index cs ys"
  then obtain q where q: "bt_get ?m (state_of rs cs ys) = Some q"
    and nb: "\<not> better cs (plan_of tgt rs cs ys) q"
    using ok by (auto simp: table_ok_def)
  have "(state_of rs cs ys, q) \<in> set ?m" using q table_entry [OF ok] by simp
  then have "compare_plans cs (state_of rs cs ys, q) (s, p) \<noteq> OrdGreater"
    using best \<open>req \<Longrightarrow> has_positive_index cs ys\<close> by (auto simp: state_of_def)
  then have "length ys < length (indices p) \<or> length ys = length (indices p) \<and>
      (utility q < utility p \<or> utility q = utility p \<and> ordered_plies p cs \<le> ordered_plies q cs)"
    unfolding compare_plans_def then_with_simps compare_simps st
    by (auto simp: state_of_def compare_simps not_less le_less)
  moreover have "spec_utility tgt rs cs ys < utility q \<or> spec_utility tgt rs cs ys = utility q \<and>
      ordered_plies q cs \<le> map (\<lambda>i. c_ply (cs ! i)) ys"
    using nb unfolding not_better_iff by (simp add: plan_of_def ordered_plies_def)
  moreover have "utility p = spec_utility tgt rs cs (indices p)"
    "ordered_plies p cs = map (\<lambda>i. c_ply (cs ! i)) (indices p)"
    using arg_cong [OF pl, of utility] by (simp_all add: plan_of_def ordered_plies_def)
  ultimately show "at_least_as_good tgt rs cs (indices p) ys"
    unfolding at_least_as_good_def by auto
qed

lemma optimize_None:
  assumes "optimize cs tgt req rs = None" and "feasible (length cs) tgt ys"
  shows "req \<and> \<not> has_positive_index cs ys"
proof -
  let ?m = "fold (optimize_step tgt rs cs) [0..<length cs] [(initial_state, initial_plan)]"
  have ok: "table_ok tgt rs cs (length cs) ?m" by (rule table_ok_final)
  have none: "filter (\<lambda>(s, p). \<not> req \<or> s_has_positive s) ?m = []"
    using assms(1) by (simp add: optimize_def Let_def plan_order.max_by_None)
  obtain q where "bt_get ?m (state_of rs cs ys) = Some q"
    using ok assms(2) by (auto simp: table_ok_def)
  then have "(state_of rs cs ys, q) \<in> set ?m" using table_entry [OF ok] by simp
  with none show ?thesis by (force simp: filter_empty_conv state_of_def)
qed

section \<open>How many candidates are selected\<close>

lemma feasible_prefix: "feasible n tgt [0..<min tgt n]"
  by (auto simp: feasible_def)

lemma feasible_with:
  assumes "j < n" and "0 < tgt"
  shows "\<exists>xs. feasible n tgt xs \<and> length xs = min tgt n \<and> j \<in> set xs"
proof (cases "j < min tgt n")
  case True
  then show ?thesis using feasible_prefix by (intro exI [of _ "[0..<min tgt n]"]) auto
next
  case False
  with assms have "min tgt n = tgt" "tgt \<le> j" by auto
  then have "feasible n tgt ([0..<tgt - 1] @ [j])"
    using assms by (auto simp: feasible_def sorted_wrt_append)
  moreover have "length ([0..<tgt - 1] @ [j]) = min tgt n"
    using assms(2) \<open>min tgt n = tgt\<close> by simp
  ultimately show ?thesis by (intro exI [of _ "[0..<tgt - 1] @ [j]"]) auto
qed

lemma feasible_length: "feasible n tgt xs \<Longrightarrow> length xs \<le> min tgt n"
proof -
  assume f: "feasible n tgt xs"
  then have "length xs = card (set xs)" by (simp add: feasible_def strict_sorted_iff distinct_card)
  also have "\<dots> \<le> card {..<n}" using f by (intro card_mono) (auto simp: feasible_def)
  finally show ?thesis using f by (simp add: feasible_def)
qed

lemma optimize_fills:
  assumes "0 < tgt" and req: "req \<Longrightarrow> \<exists>c\<in>set cs. is_positive (c_kind c)"
  shows "\<exists>p. optimize cs tgt req rs = Some p \<and> length (indices p) = min tgt (length cs)"
proof -
  have "\<exists>ys. feasible (length cs) tgt ys \<and> length ys = min tgt (length cs) \<and>
      (req \<longrightarrow> has_positive_index cs ys)"
  proof (cases req)
    case True
    then obtain j where "j < length cs" "is_positive (c_kind (cs ! j))"
      using req by (auto simp: in_set_conv_nth)
    then show ?thesis using feasible_with [OF _ assms(1), of j "length cs"]
      by (auto simp: has_positive_index_def)
  next
    case False
    then show ?thesis using feasible_prefix [of "length cs" tgt]
      by (intro exI [of _ "[0..<min tgt (length cs)]"]) auto
  qed
  then obtain ys where ys: "feasible (length cs) tgt ys" "length ys = min tgt (length cs)"
    "req \<longrightarrow> has_positive_index cs ys" by blast
  obtain p where p: "optimize cs tgt req rs = Some p"
    using optimize_None [OF _ ys(1)] ys(3) by (cases "optimize cs tgt req rs") auto
  have "at_least_as_good tgt rs cs (indices p) ys"
    using optimize_Some(4) [OF p ys(1)] ys(3) by simp
  then have "min tgt (length cs) \<le> length (indices p)"
    using ys(2) by (auto simp: at_least_as_good_def)
  with feasible_length [OF optimize_Some(1) [OF p]] p show ?thesis by auto
qed

section \<open>The counters stay within a byte\<close>

text \<open>Every counter of every state in the table is at most the target, so no \<open>u8\<close> addition of the
  source overflows, and the allowances are not changed by their \<open>as u8\<close> casts.\<close>

lemma table_counters:
  assumes "(s, p) \<in> set (fold (optimize_step tgt rs cs) [0..<n] [(initial_state, initial_plan)])"
  shows "s_count s \<le> tgt" "\<forall>x\<in>set (s_tactical s). x \<le> tgt" "\<forall>x\<in>set (s_phase s). x \<le> tgt"
    "\<forall>x\<in>set (s_side s). x \<le> tgt"
proof -
  note ok = table_ok_final [of tgt rs cs n]
  then have g: "feasible n tgt (indices p)" "s = state_of rs cs (indices p)"
    using assms table_entry [OF ok] unfolding table_ok_def by blast+
  have le: "cnt f cs k (indices p) \<le> tgt" for f k
    using g(1) length_filter_le [of "\<lambda>i. f (cs ! i) = k" "indices p"]
    unfolding cnt_def feasible_def by linarith
  show "s_count s \<le> tgt" "\<forall>x\<in>set (s_tactical s). x \<le> tgt" "\<forall>x\<in>set (s_phase s). x \<le> tgt"
    "\<forall>x\<in>set (s_side s). x \<le> tgt"
    using g le by (auto simp: state_of_def feasible_def)
qed

lemma allowances_exact:
  assumes "3 \<le> t" and "t \<le> 8"
  shows "category_allowance t = div_ceil (2 * t) 3" "side_allowance t = div_ceil (3 * t) 4"
proof -
  have "t \<in> {3, 4, 5, 6, 7, 8}" using assms by auto
  then show "category_allowance t = div_ceil (2 * t) 3" "side_allowance t = div_ceil (3 * t) 4"
    by (auto simp: category_allowance_def side_allowance_def sat_mul_def div_ceil_def)
qed

end
