(* ===== verification/SelectorCollapse.thy ===== *)
theory SelectorCollapse
  imports SelectorPlan
begin

text \<open>
  What \<open>collapse_episodes\<close> and \<open>select\<close> promise. Collapsing keeps exactly the candidates without
  an episode and one representative per episode, in game order, and records for every other
  candidate why it was dropped. Selection never fails, fills the adaptive target, is optimal for
  the specification of \<open>SelectorPlan\<close>, and its trace agrees with it.
\<close>

section \<open>Specification of collapsing\<close>

definition in_episode :: "string \<Rightarrow> 't candidate \<Rightarrow> bool" where
  "in_episode i c \<longleftrightarrow> (case c_episode c of None \<Rightarrow> False | Some e \<Rightarrow> ep_id e = i)"

definition members :: "string \<Rightarrow> 't candidate list \<Rightarrow> 't candidate list" where
  "members i cs = filter (in_episode i) cs"

text \<open>The representative of an episode: its earliest decision, or else its latest payoff.\<close>

definition represents :: "'t candidate list \<Rightarrow> string \<Rightarrow> 't candidate \<Rightarrow> bool" where
  "represents cs i r \<longleftrightarrow> r \<in> set cs \<and> in_episode i r \<and>
     (has_role Decision r \<and>
        (\<forall>d\<in>set cs. in_episode i d \<longrightarrow> has_role Decision d \<longrightarrow> c_ply r \<le> c_ply d) \<or>
      (\<forall>d\<in>set cs. in_episode i d \<longrightarrow> \<not> has_role Decision d) \<and> has_role Payoff r \<and>
        (\<forall>d\<in>set cs. in_episode i d \<longrightarrow> has_role Payoff d \<longrightarrow> c_ply d \<le> c_ply r))"

definition kept :: "'t candidate list \<Rightarrow> 't candidate \<Rightarrow> bool" where
  "kept cs c \<longleftrightarrow> (case c_episode c of None \<Rightarrow> True | Some e \<Rightarrow> represents cs (ep_id e) c)"

definition outcome_spec :: "'t candidate list \<Rightarrow> 't candidate \<Rightarrow> episode_outcome option \<Rightarrow> bool" where
  "outcome_spec cs c outcome \<longleftrightarrow> (case outcome of
     None \<Rightarrow> kept cs c
   | Some Retained \<Rightarrow> False
   | Some (Collapsed q) \<Rightarrow> \<exists>e r. c_episode c = Some e \<and> represents cs (ep_id e) r \<and> c_ply r = q \<and>
       c_ply c \<noteq> q
   | Some Suppressed \<Rightarrow> \<exists>e. c_episode c = Some e \<and>
       (\<forall>d\<in>set cs. in_episode (ep_id e) d \<longrightarrow> \<not> has_role Decision d \<and> \<not> has_role Payoff d))"

section \<open>The two loops\<close>

lemma set_members: "c \<in> set (members i cs) \<longleftrightarrow> c \<in> set cs \<and> in_episode i c"
  by (simp add: members_def)

lemma members_Cons: "members i (c # cs) = (if in_episode i c then [c] else []) @ members i cs"
  by (simp add: members_def)

lemma partition_fold:
  assumes "fold partition_step cs (ret, gs) = (ret', gs')" and "bt_invar gs"
  shows "ret' = ret @ filter (\<lambda>c. c_episode c = None) cs \<and> bt_invar gs' \<and>
    (\<forall>i. bt_get gs' i = (if members i cs = [] then bt_get gs i
       else Some ((case bt_get gs i of None \<Rightarrow> [] | Some g \<Rightarrow> g) @ members i cs)))"
  using assms
proof (induction cs arbitrary: ret gs)
  case Nil then show ?case by (simp add: members_def)
next
  case (Cons c cs)
  show ?case
  proof (cases "c_episode c")
    case None
    then have "\<not> in_episode i c" for i by (simp add: in_episode_def)
    then show ?thesis using Cons.IH [of "ret @ [c]" gs] Cons.prems None
      by (simp add: members_Cons)
  next
    case (Some e)
    let ?g = "(case bt_get gs (ep_id e) of None \<Rightarrow> [] | Some g \<Rightarrow> g) @ [c]"
    have ie: "in_episode i c \<longleftrightarrow> i = ep_id e" for i using Some by (auto simp: in_episode_def)
    have "fold partition_step cs (ret, bt_insert (ep_id e) ?g gs) = (ret', gs')"
      using Cons.prems(1) Some by simp
    from Cons.IH [OF this bt_insert_invar [OF Cons.prems(2)]] Some
    show ?thesis by (auto simp: members_Cons ie bt_get_insert)
  qed
qed

definition outcome_in :: "'t candidate list \<Rightarrow> 't candidate \<Rightarrow> episode_outcome option" where
  "outcome_in grp c = (case representative grp of
     None \<Rightarrow> Some Suppressed
   | Some r \<Rightarrow> if c_ply c \<noteq> c_ply r then Some (Collapsed (c_ply r)) else None)"

lemma fold_suppress:
  "fold (\<lambda>c os. os(c_ply c \<mapsto> v)) grp os k = (if k \<in> c_ply ` set grp then Some v else os k)"
  by (induction grp arbitrary: os) auto

lemma collapse_all_get:
  "collapse_all q grp os k = (if k \<in> c_ply ` set grp \<and> k \<noteq> q then Some (Collapsed q) else os k)"
  unfolding collapse_all_def by (induction grp arbitrary: os) auto

lemma group_step_get:
  "snd (group_step grp (ret, os)) k =
     (if k \<in> c_ply ` set grp then
        (case representative grp of None \<Rightarrow> Some Suppressed
         | Some r \<Rightarrow> if k \<noteq> c_ply r then Some (Collapsed (c_ply r)) else os k)
      else os k)"
  by (auto simp: fold_suppress collapse_all_get split: option.splits)

lemma group_fold_retained:
  "fst (fold group_step gs (ret, os)) = ret @ List.map_filter representative gs"
  by (induction gs arbitrary: ret os) (auto simp: List.map_filter_simps split: option.splits)

lemma group_fold_other:
  "k \<notin> c_ply ` set (concat gs) \<Longrightarrow> snd (fold group_step gs (ret, os)) k = os k"
proof (induction gs arbitrary: ret os)
  case (Cons g gs)
  obtain ret' os' where s: "group_step g (ret, os) = (ret', os')" by fastforce
  have "k \<notin> c_ply ` set g" using Cons.prems by auto
  then have "os' k = os k" using group_step_get [of g ret os k] unfolding s by simp
  moreover have "k \<notin> c_ply ` set (concat gs)" using Cons.prems by auto
  ultimately show ?case using Cons.IH [of ret' os'] s by simp
qed simp

lemma group_fold_outcome:
  assumes "distinct (map c_ply (concat gs))" and "\<forall>c\<in>set (concat gs). os (c_ply c) = None"
    and "g \<in> set gs" and "c \<in> set g"
  shows "snd (fold group_step gs (ret, os)) (c_ply c) = outcome_in g c"
  using assms
proof (induction gs arbitrary: ret os)
  case (Cons g' gs)
  obtain ret' os' where s: "group_step g' (ret, os) = (ret', os')" by fastforce
  then have get: "os' k = snd (group_step g' (ret, os)) k" for k by simp
  have disj: "c_ply ` set g' \<inter> c_ply ` set (concat gs) = {}" using Cons.prems(1) by auto
  show ?case
  proof (cases "g \<in> set gs")
    case True
    have "\<forall>c\<in>set (concat gs). os' (c_ply c) = None"
      using Cons.prems(2) disj unfolding get group_step_get by auto
    then show ?thesis using Cons.IH [of os' ret'] Cons.prems True s by simp
  next
    case False
    then have "g = g'" using Cons.prems(3) by simp
    have "os (c_ply c) = None" "c_ply c \<in> c_ply ` set g'" using Cons.prems(2,4) \<open>g = g'\<close> by auto
    then have out: "os' (c_ply c) = outcome_in g c"
      using \<open>g = g'\<close> unfolding get group_step_get outcome_in_def
      by (auto split: option.splits)
    have "c_ply c \<notin> c_ply ` set (concat gs)"
      using disj Cons.prems(4) \<open>g = g'\<close> by blast
    then show ?thesis using group_fold_other [of "c_ply c" gs ret' os'] out s by simp
  qed
qed simp

section \<open>Distinct plies\<close>

lemma ply_inj: "distinct (map c_ply cs) \<Longrightarrow> c \<in> set cs \<Longrightarrow> d \<in> set cs \<Longrightarrow> c_ply c = c_ply d \<Longrightarrow> c = d"
  by (metis distinct_map inj_onD)

lemma in_episode_unique: "in_episode i c \<Longrightarrow> in_episode j c \<Longrightarrow> i = j"
  by (auto simp: in_episode_def split: option.splits)

lemma distinct_members:
  assumes "distinct (map c_ply cs)" and "distinct ids"
  shows "distinct (map c_ply (concat (map (\<lambda>i. members i cs) ids)))"
  using assms(2)
proof (induction ids)
  case (Cons i ids)
  have "distinct (map c_ply (members i cs))"
    using assms(1) unfolding members_def by (rule distinct_map_filter)
  moreover have "c_ply c \<noteq> c_ply d"
    if "c \<in> set (members i cs)" "j \<in> set ids" "d \<in> set (members j cs)" for c d j
    using that Cons.prems ply_inj [OF assms(1)] in_episode_unique by (metis distinct.simps(2) set_members)
  ultimately show ?case using Cons by fastforce
qed simp

lemma representative_mem: "representative g = Some r \<Longrightarrow> r \<in> set g"
  by (auto simp: representative_def split: option.splits dest: min_by_key_Some max_by_key_Some)

lemma set_map_filter_representative:
  "set (List.map_filter representative gs) = {r. \<exists>g\<in>set gs. representative g = Some r}"
  by (induction gs) (auto simp: List.map_filter_simps split: option.splits)

lemma distinct_representatives:
  "distinct (map c_ply (concat gs)) \<Longrightarrow> distinct (map c_ply (List.map_filter representative gs))"
proof (induction gs)
  case (Cons g gs)
  then show ?case
    by (auto simp: List.map_filter_simps set_map_filter_representative split: option.splits
        dest!: representative_mem)
qed (simp add: List.map_filter_simps)

section \<open>The representative\<close>

lemma representative_represents:
  assumes d: "distinct (map c_ply cs)"
  shows "representative (members i cs) = Some r \<longleftrightarrow> represents cs i r"
proof -
  let ?D = "filter (has_role Decision) (members i cs)"
  let ?P = "filter (has_role Payoff) (members i cs)"
  have sD: "c \<in> set ?D \<longleftrightarrow> c \<in> set cs \<and> in_episode i c \<and> has_role Decision c"
    and sP: "c \<in> set ?P \<longleftrightarrow> c \<in> set cs \<and> in_episode i c \<and> has_role Payoff c" for c
    by (auto simp: set_members)
  show ?thesis
  proof (cases "min_by_key c_ply ?D")
    case None
    then have no: "\<forall>d\<in>set cs. in_episode i d \<longrightarrow> \<not> has_role Decision d"
      using sD by (metis min_by_key_None in_set_replicate replicate_empty)
    have rep: "representative (members i cs) = max_by_key c_ply ?P"
      using None by (simp add: representative_def)
    show ?thesis
    proof
      assume "representative (members i cs) = Some r"
      then show "represents cs i r"
        using max_by_key_Some [of c_ply ?P r] sP no unfolding rep represents_def by blast
    next
      assume r: "represents cs i r"
      then have rP: "r \<in> set ?P" and ge: "\<forall>x\<in>set ?P. c_ply x \<le> c_ply r"
        using no sP unfolding represents_def by blast+
      then have "?P \<noteq> []" by (metis empty_iff empty_set)
      then obtain m where m: "max_by_key c_ply ?P = Some m"
        using max_by_key_None by blast
      from max_by_key_Some [OF m] rP ge have "c_ply m = c_ply r" "m \<in> set cs" "r \<in> set cs"
        using sP by (auto intro: le_antisym)
      then show "representative (members i cs) = Some r" using ply_inj [OF d] m rep by simp
    qed
  next
    case (Some m)
    have rep: "representative (members i cs) = Some m" using Some by (simp add: representative_def)
    have m: "m \<in> set cs" "in_episode i m" "has_role Decision m" "\<forall>x\<in>set ?D. c_ply m \<le> c_ply x"
      using min_by_key_Some [OF Some] sD by blast+
    then have "represents cs i m" using sD unfolding represents_def by blast
    moreover have "r = m" if "represents cs i r"
    proof -
      have "r \<in> set ?D" "\<forall>x\<in>set ?D. c_ply r \<le> c_ply x" "r \<in> set cs"
        using that m sD unfolding represents_def by blast+
      then have "c_ply r = c_ply m" using m min_by_key_Some [OF Some] by (meson le_antisym)
      then show ?thesis using ply_inj [OF d] m(1) \<open>r \<in> set cs\<close> by simp
    qed
    ultimately show ?thesis using rep by auto
  qed
qed

lemma representative_none:
  "representative (members i cs) = None \<longleftrightarrow>
   (\<forall>d\<in>set cs. in_episode i d \<longrightarrow> \<not> has_role Decision d \<and> \<not> has_role Payoff d)"
  by (auto simp: representative_def min_by_key_None max_by_key_None filter_empty_conv set_members
      split: option.splits dest!: min_by_key_Some)

lemma represents_set: "set cs = set cs' \<Longrightarrow> represents cs i r = represents cs' i r"
  by (simp add: represents_def)

section \<open>Collapsing\<close>

text \<open>Exactly the kept candidates survive, in game order, and the outcome map explains the rest.\<close>

lemma collapse_groups:
  assumes "distinct (map c_ply cs)" and "fold partition_step cs ([], []) = (ret, gs)"
  shows "ret = filter (\<lambda>c. c_episode c = None) cs" "bt_values gs = map (\<lambda>i. members i cs) (map fst gs)"
    "distinct (map fst gs)" "\<And>i. i \<in> set (map fst gs) \<longleftrightarrow> members i cs \<noteq> []"
proof -
  note f = partition_fold [OF assms(2)]
  have inv0: "bt_invar ([] :: (string, 'a candidate list) btree_map)" by (rule btree.invar_empty)
  have r: "ret = filter (\<lambda>c. c_episode c = None) cs" "bt_invar gs"
    "\<And>i. bt_get gs i = (if members i cs = [] then None else Some (members i cs))"
    using f [OF inv0] by auto
  show "ret = filter (\<lambda>c. c_episode c = None) cs" by (rule r(1))
  show d: "distinct (map fst gs)" using btree.distinct_keys [OF r(2)] .
  have "snd e = members (fst e) cs" if "e \<in> set gs" for e
    using that r(3) [of "fst e"] bt_entries_get [OF r(2), of "fst e" "snd e"]
    by (auto split: if_splits)
  then show "bt_values gs = map (\<lambda>i. members i cs) (map fst gs)" by (simp add: bt_values_def)
  show "i \<in> set (map fst gs) \<longleftrightarrow> members i cs \<noteq> []" for i
    using r(3) [of i] map_of_eq_None_iff [of gs i] by (auto split: if_splits)
qed

lemma sort_key_strict: "distinct (map f xs) \<Longrightarrow> sorted_wrt (<) (map f (sort_key f xs))"
  by (simp add: strict_sorted_iff)  (metis distinct_map mset_eq_setD mset_map mset_sort
      mset_eq_imp_distinct_iff)

lemma collapse_sorted:
  assumes d: "distinct (map c_ply cs)"
    and fp: "fold partition_step cs ([], []) = (ret0, gs)"
    and fg: "fold group_step (bt_values gs) (ret0, Map.empty) = (ret, os)"
  shows "set ret = {c \<in> set cs. kept cs c}" "distinct (map c_ply ret)"
    "c \<in> set cs \<Longrightarrow> outcome_spec cs c (os (c_ply c))"
proof -
  note g = collapse_groups [OF d fp]
  let ?gs = "bt_values gs"
  have ret: "ret = ret0 @ List.map_filter representative ?gs"
    using group_fold_retained [of ?gs ret0 Map.empty] fg by simp
  have reps: "r \<in> set (List.map_filter representative ?gs) \<longleftrightarrow> (\<exists>i. represents cs i r)" for r
  proof -
    have "represents cs i r \<Longrightarrow> members i cs \<noteq> []" for i
      by (auto simp: represents_def members_def filter_empty_conv)
    then have "represents cs i r \<Longrightarrow> \<exists>i\<in>set (map fst gs). represents cs i r" for i
      using g(4) by blast
    then show ?thesis
      unfolding set_map_filter_representative g(2)
      using representative_represents [OF d, of _ r] by auto
  qed
  have ep: "represents cs i r \<Longrightarrow> \<exists>e. c_episode r = Some e \<and> ep_id e = i" for i r
    by (auto simp: represents_def in_episode_def split: option.splits)
  have keep: "c \<in> set cs \<and> kept cs c \<longleftrightarrow> c \<in> set cs \<and> c_episode c = None \<or> (\<exists>i. represents cs i c)" for c
  proof (cases "c_episode c")
    case None
    then show ?thesis using ep [of _ c] by (auto simp: kept_def)
  next
    case (Some e)
    then show ?thesis using ep [of _ c] by (auto simp: kept_def) (auto simp: represents_def)
  qed
  show "set ret = {c \<in> set cs. kept cs c}"
    unfolding ret g(1) set_append keep using reps by auto
  have dm: "distinct (map c_ply (concat ?gs))"
    unfolding g(2) by (rule distinct_members [OF d g(3)])
  have "c_ply c \<noteq> c_ply r" if "c \<in> set ret0" "represents cs i r" for c r i
    using that ep [OF that(2)] ply_inj [OF d, of c r] unfolding g(1) by (auto simp: represents_def)
  then have "c_ply ` set ret0 \<inter> c_ply ` set (List.map_filter representative ?gs) = {}"
    using reps by fastforce
  then show "distinct (map c_ply ret)"
    unfolding ret using distinct_representatives [OF dm] distinct_map_filter [OF d] g(1) by simp
  assume c: "c \<in> set cs"
  have os: "os k = snd (fold group_step ?gs (ret0, Map.empty)) k" for k using fg by simp
  show "outcome_spec cs c (os (c_ply c))"
  proof (cases "c_episode c")
    case None
    have "c_ply c \<notin> c_ply ` set (concat ?gs)"
    proof
      assume "c_ply c \<in> c_ply ` set (concat ?gs)"
      then obtain i m where "m \<in> set cs" "in_episode i m" "c_ply c = c_ply m"
        unfolding g(2) by (auto simp: set_members)
      then show False using ply_inj [OF d c] None by (auto simp: in_episode_def)
    qed
    then show ?thesis using None unfolding os
      by (subst group_fold_other) (simp_all add: outcome_spec_def kept_def)
  next
    case (Some e)
    let ?g = "members (ep_id e) cs"
    have cg: "c \<in> set ?g" using c Some by (simp add: set_members in_episode_def)
    then have "?g \<in> set ?gs" using g(4) [of "ep_id e"] unfolding g(2) by force
    then have out: "os (c_ply c) = outcome_in ?g c"
      unfolding os using group_fold_outcome [OF dm _ _ cg, of Map.empty ret0] by simp
    show ?thesis
    proof (cases "representative ?g")
      case None
      then show ?thesis using Some out representative_none [of "ep_id e" cs]
        by (auto simp: outcome_in_def outcome_spec_def)
    next
      fix r assume r: "representative ?g = Some r"
      then have rep: "represents cs (ep_id e) r" using representative_represents [OF d] by blast
      then have "r \<in> set cs" by (simp add: represents_def)
      then show ?thesis using Some r out rep ply_inj [OF d c, of r]
        by (auto simp: outcome_in_def outcome_spec_def kept_def)
    qed
  qed
qed

lemma kept_set: "set cs = set cs' \<Longrightarrow> kept cs c = kept cs' c"
  by (auto simp: kept_def represents_def split: option.splits)

lemma outcome_spec_set: "set cs = set cs' \<Longrightarrow> outcome_spec cs c x = outcome_spec cs' c x"
  unfolding outcome_spec_def
  by (auto simp: kept_set [of cs cs'] represents_set [of cs cs'] split: option.splits episode_outcome.splits)

lemma collapse_sound:
  assumes d: "distinct (map c_ply cs)" and col: "collapse_episodes cs = (ret, os)"
  shows "sorted_wrt (<) (map c_ply ret)" "set ret = {c \<in> set cs. kept cs c}"
    "c \<in> set cs \<Longrightarrow> outcome_spec cs c (os (c_ply c))"
proof -
  let ?cs = "sort_key c_ply cs"
  obtain ret0 gs where fp: "fold partition_step ?cs ([], []) = (ret0, gs)" by fastforce
  obtain ret1 os1 where fg: "fold group_step (bt_values gs) (ret0, Map.empty) = (ret1, os1)"
    by fastforce
  have eq: "ret = sort_key c_ply ret1" "os = os1"
    using col fp fg by (simp_all add: collapse_episodes_def Let_def)
  have d': "distinct (map c_ply ?cs)" using sort_key_strict [OF d] strict_sorted_iff by blast
  note s = collapse_sorted [OF d' fp fg]
  show "sorted_wrt (<) (map c_ply ret)" unfolding eq by (rule sort_key_strict [OF s(2)])
  show "set ret = {c \<in> set cs. kept cs c}" unfolding eq set_sort using s(1) kept_set [of ?cs cs] by simp
  show "outcome_spec cs c (os (c_ply c))" if "c \<in> set cs"
    unfolding eq using s(3) [of c] that outcome_spec_set [of ?cs cs] by simp
qed

end
