(* ===== verification/SelectorResult.thy ===== *)
theory SelectorResult
  imports SelectorCollapse
begin

text \<open>
  The properties of \<open>select\<close>: it never fails, fills the adaptive target, returns the best plan of
  the specification in \<open>SelectorPlan\<close>, and the ranks and positions of its trace order the selected
  candidates by priority and by game order.
\<close>

section \<open>Ranks\<close>

definition rank_map :: "('a \<Rightarrow> 'k) \<Rightarrow> 'a list \<Rightarrow> 'k \<Rightarrow> nat option" where
  "rank_map f xs = map_of (rev (map (\<lambda>(k, x). (f x, k + 1)) (enumerate 0 xs)))"

lemma rank_map_keys:
  "map fst (map (\<lambda>(k, x). (f x, k + 1)) (enumerate 0 xs)) = map f (xs :: 'a list)"
  by (rule nth_equalityI) (auto simp: nth_enumerate_eq)

lemma rank_map_eq:
  assumes "distinct (map f xs)"
  shows "rank_map f xs q = Some r \<longleftrightarrow> (\<exists>k<length xs. r = k + 1 \<and> f (xs ! k) = q)"
proof -
  let ?ps = "map (\<lambda>(k, x). (f x, k + 1)) (enumerate 0 xs)"
  have "distinct (map fst (rev ?ps))"
    using assms rank_map_keys [of f xs] by (simp only: rev_map [symmetric] distinct_rev)
  then have "rank_map f xs q = Some r \<longleftrightarrow> (q, r) \<in> set ?ps"
    unfolding rank_map_def by (simp only: map_of_eq_Some_iff set_rev)
  also have "\<dots> \<longleftrightarrow> (\<exists>k<length xs. r = k + 1 \<and> f (xs ! k) = q)"
  proof -
    have "set (enumerate 0 xs) = (\<lambda>k. (k, xs ! k)) ` {..<length xs}"
      by (auto simp: in_set_enumerate_eq)
    then show ?thesis by (auto simp: image_image)
  qed
  finally show ?thesis .
qed

lemma rank_map_None: "rank_map f xs q = None \<longleftrightarrow> q \<notin> f ` set xs"
proof -
  have "fst ` set (map (\<lambda>(k, x). (f x, k + 1)) (enumerate 0 xs)) = f ` set xs"
    using arg_cong [OF rank_map_keys [of f xs], of set] by (simp only: set_map)
  then show ?thesis unfolding rank_map_def map_of_eq_None_iff set_rev by simp
qed

lemma rank_map_order:
  assumes "distinct (map f xs)" and "sorted_wrt lt xs" and "\<And>x y. lt x y \<Longrightarrow> \<not> lt y x"
    and "x \<in> set xs" and "y \<in> set xs" and "rank_map f xs (f x) = Some r" and "rank_map f xs (f y) = Some s"
  shows "r < s \<longleftrightarrow> lt x y"
proof -
  obtain i j where ij: "i < length xs" "xs ! i = x" "r = i + 1" "j < length xs" "xs ! j = y" "s = j + 1"
    using assms(1,4-7) unfolding rank_map_eq [OF assms(1)]
    by (metis distinct_map inj_onD nth_mem)
  show ?thesis
  proof
    assume "r < s" then show "lt x y" using ij assms(2) by (auto simp: sorted_wrt_iff_nth_less)
  next
    assume "lt x y"
    then have "\<not> lt y x" "x \<noteq> y" using assms(3) by blast+
    then show "r < s" using ij assms(2) by (metis add_less_cancel_right linorder_neqE_nat sorted_wrt_nth_less)
  qed
qed

lemma rank_map_the_order:
  assumes "distinct (map f xs)" and "sorted_wrt lt xs" and "\<And>x y. lt x y \<Longrightarrow> \<not> lt y x"
    and "x \<in> set xs" and "y \<in> set xs"
  shows "the (rank_map f xs (f x)) < the (rank_map f xs (f y)) \<longleftrightarrow> lt x y"
proof -
  have "rank_map f xs (f x) \<noteq> None" "rank_map f xs (f y) \<noteq> None"
    using assms(4,5) by (simp_all add: rank_map_None)
  then obtain r s where "rank_map f xs (f x) = Some r" "rank_map f xs (f y) = Some s" by blast
  then show ?thesis using rank_map_order [OF assms] by simp
qed

section \<open>The parts of a selection\<close>

abbreviation ply_at :: "'t candidate list \<Rightarrow> nat \<Rightarrow> nat" where
  "ply_at cs i \<equiv> c_ply (cs ! i)"

definition by_priority :: "'t candidate list \<Rightarrow> nat \<Rightarrow> nat \<Rightarrow> ordering" where
  "by_priority cs l r =
     then_with (compare (priority (cs ! r)) (priority (cs ! l))) (compare (ply_at cs l) (ply_at cs r))"

definition trace_of ::
  "'t candidate list \<Rightarrow> (nat \<rightharpoonup> episode_outcome) \<Rightarrow> nat list \<Rightarrow> 't candidate \<Rightarrow> candidate_trace" where
  "trace_of ret os xs c =
     \<lparr>ct_ply = c_ply c, ct_kind = c_kind c, ct_strength = c_strength c, ct_priority = priority c,
      ct_episode = c_episode c,
      ct_outcome = (case os (c_ply c) of None \<Rightarrow> Retained | Some outcome \<Rightarrow> outcome),
      ct_selected = (c_ply c \<in> ply_at ret ` set xs),
      ct_priority_rank = rank_map (ply_at ret) (sort_by (by_priority ret) xs) (c_ply c),
      ct_game_order = rank_map (ply_at ret) xs (c_ply c)\<rparr>"

lemma by_priority_comparator: "comparator (by_priority cs)"
  unfolding by_priority_def
  by (intro comparator_then_with comparator_key [of "\<lambda>i. ply_at cs i"]
      comparator_key_rev [of "\<lambda>i. priority (cs ! i)"])

interpretation priority_order: comparator "by_priority cs" for cs
  by (rule by_priority_comparator)

lemma adaptive_target_pos: "0 < adaptive_target n"
  using adaptive_target_bounds [of n] by simp

lemma select_parts:
  assumes col: "collapse_episodes cs = (ret, os)"
  shows "\<exists>p. optimize ret (adaptive_target n) (\<exists>c\<in>set ret. is_positive (c_kind c)) rs = Some p \<and>
    length (indices p) = min (adaptive_target n) (length ret) \<and>
    select n rs cs = Inr \<lparr>selected = map (\<lambda>i. c_payload (ret ! i)) (indices p),
      trace = \<lparr>st_game_plies = n, st_adaptive_target = adaptive_target n, st_hard_maximum = HARD_MAXIMUM,
        st_positive_required = (\<exists>c\<in>set ret. is_positive (c_kind c)),
        st_diversity_penalty = diversity_penalty p,
        st_candidates = map (trace_of ret os (indices p)) cs\<rparr>\<rparr>"
proof -
  let ?req = "\<exists>c\<in>set ret. is_positive (c_kind c)"
  obtain p where p: "optimize ret (adaptive_target n) ?req rs = Some p"
    "length (indices p) = min (adaptive_target n) (length ret)"
    using optimize_fills [OF adaptive_target_pos, of ?req ret] by blast
  have ex: "list_ex (\<lambda>c. is_positive (c_kind c)) ret = ?req" by (simp add: list_ex_iff)
  show ?thesis
    using p adaptive_target_le_hard [of n]
    by (intro exI [of _ p])
      (simp add: select_def col ex Let_def trace_of_def rank_map_def by_priority_def [abs_def])
qed

lemma select_Inr:
  assumes "select n rs cs = Inr sel" and "collapse_episodes cs = (ret, os)"
  obtains p where "optimize ret (adaptive_target n) (\<exists>c\<in>set ret. is_positive (c_kind c)) rs = Some p"
    and "selected sel = map (\<lambda>i. c_payload (ret ! i)) (indices p)"
    and "st_diversity_penalty (trace sel) = diversity_penalty p"
    and "st_candidates (trace sel) = map (trace_of ret os (indices p)) cs"
  using select_parts [OF assms(2), of n rs] assms(1) by auto

abbreviation collapsed :: "'t candidate list \<Rightarrow> 't candidate list" where
  "collapsed cs \<equiv> fst (collapse_episodes cs)"

definition positive_available :: "'t candidate list \<Rightarrow> bool" where
  "positive_available cs \<longleftrightarrow> (\<exists>c\<in>set cs. is_positive (c_kind c))"

section \<open>Properties of selection\<close>

text \<open>C10: selection never returns an error (the hard-maximum branch is unreachable), and it selects
  exactly as many moments as the adaptive target and the collapsed candidates allow.\<close>

theorem select_total:
  "\<exists>sel. select n rs cs = Inr sel \<and>
     length (selected sel) = min (adaptive_target n) (length (collapsed cs)) \<and>
     length (selected sel) \<le> 8"
proof -
  obtain ret os where col: "collapse_episodes cs = (ret, os)" by fastforce
  show ?thesis
    using select_parts [OF col, of n rs] adaptive_target_bounds [of n] col by auto
qed

text \<open>C1: the selected moments are the payloads of an index list that is optimal: it lists the
  collapsed candidates in game order without repetition, contains a positive highlight whenever one
  survives collapsing, and no other list within the target that does so is longer, of higher
  specified utility, or of the same utility with earlier plies.\<close>

theorem select_optimal:
  assumes "select n rs cs = Inr sel"
  shows "\<exists>xs. selected sel = map (\<lambda>i. c_payload (collapsed cs ! i)) xs \<and>
    feasible (length (collapsed cs)) (adaptive_target n) xs \<and>
    st_diversity_penalty (trace sel) = spec_penalty (adaptive_target n) rs (collapsed cs) xs \<and>
    (positive_available (collapsed cs) \<longrightarrow> has_positive_index (collapsed cs) xs) \<and>
    (\<forall>ys. feasible (length (collapsed cs)) (adaptive_target n) ys \<longrightarrow>
       (positive_available (collapsed cs) \<longrightarrow> has_positive_index (collapsed cs) ys) \<longrightarrow>
       at_least_as_good (adaptive_target n) rs (collapsed cs) xs ys)"
proof -
  obtain ret os where col: "collapse_episodes cs = (ret, os)" by fastforce
  obtain p where p: "optimize ret (adaptive_target n) (positive_available ret) rs = Some p"
    and sel: "selected sel = map (\<lambda>i. c_payload (ret ! i)) (indices p)"
      "st_diversity_penalty (trace sel) = diversity_penalty p"
    using select_Inr [OF assms col] unfolding positive_available_def by blast
  note o = optimize_Some [OF p]
  have "diversity_penalty p = spec_penalty (adaptive_target n) rs ret (indices p)"
    using arg_cong [OF o(2), of diversity_penalty] by (simp add: plan_of_def)
  then show ?thesis
    unfolding col fst_conv using sel o(1,3,4) by (intro exI [of _ "indices p"]) simp
qed

text \<open>The candidates of a game have distinct plies.\<close>

lemma chosen_plies:
  assumes d: "distinct (map c_ply cs)" and col: "collapse_episodes cs = (ret, os)"
    and fe: "feasible (length ret) tgt xs"
  shows "sorted_wrt (<) (map (ply_at ret) xs)" "distinct (map (ply_at ret) xs)"
    "c \<in> set cs \<Longrightarrow> c_ply c \<in> ply_at ret ` set xs \<Longrightarrow> kept cs c \<and> (\<exists>i\<in>set xs. ret ! i = c)"
    "i \<in> set xs \<Longrightarrow> ret ! i \<in> set cs"
proof -
  note s = collapse_sound [OF d col]
  show so: "sorted_wrt (<) (map (ply_at ret) xs)"
    using fe s(1) unfolding feasible_def sorted_wrt_iff_nth_less by auto
  then show "distinct (map (ply_at ret) xs)" using strict_sorted_iff by blast
  show in_cs: "i \<in> set xs \<Longrightarrow> ret ! i \<in> set cs" for i
    using fe s(2) nth_mem [of i ret] by (auto simp: feasible_def)
  assume c: "c \<in> set cs" "c_ply c \<in> ply_at ret ` set xs"
  then obtain i where i: "i \<in> set xs" "ret ! i = c" using in_cs ply_inj [OF d] by fastforce
  then have "c \<in> set ret" using fe nth_mem [of i ret] by (auto simp: feasible_def)
  then show "kept cs c \<and> (\<exists>i\<in>set xs. ret ! i = c)" using s(2) i by auto
qed

lemma kept_outcome:
  assumes "kept cs c" and "outcome_spec cs c x" and d: "distinct (map c_ply cs)" and "c \<in> set cs"
  shows "x = None"
proof (cases "c_episode c")
  case None
  then show ?thesis using assms(2) by (auto simp: outcome_spec_def split: option.splits episode_outcome.splits)
next
  case (Some e)
  then have c: "represents cs (ep_id e) c" using assms(1) by (simp add: kept_def)
  then have unique: "r = c" if "represents cs (ep_id e) r" for r
    using that representative_represents [OF d, of "ep_id e"] by (metis option.inject)
  have roles: "has_role Decision c \<or> has_role Payoff c" "in_episode (ep_id e) c"
    using c by (simp_all only: represents_def) blast+
  show ?thesis
  proof (cases x)
    case (Some out)
    show ?thesis
    proof (cases out)
      case Retained
      then show ?thesis using assms(2) Some by (simp add: outcome_spec_def)
    next
      case (Collapsed q)
      then obtain e' r where "c_episode c = Some e'" "represents cs (ep_id e') r" "c_ply r = q" "c_ply c \<noteq> q"
        using assms(2) Some unfolding outcome_spec_def by auto
      then show ?thesis using unique \<open>c_episode c = Some e\<close> by auto
    next
      case Suppressed
      then have "\<exists>e'. c_episode c = Some e' \<and> (\<forall>d\<in>set cs. in_episode (ep_id e') d \<longrightarrow>
          \<not> has_role Decision d \<and> \<not> has_role Payoff d)"
        using assms(2) Some by (simp only: outcome_spec_def option.simps episode_outcome.simps)
      then have "\<not> has_role Decision c \<and> \<not> has_role Payoff c"
        using \<open>c_episode c = Some e\<close> assms(4) roles(2) by (metis option.inject)
      then show ?thesis using roles(1) by blast
    qed
  qed simp
qed

lemma sort_by_priority_strict:
  assumes "distinct (map (ply_at cs) xs)"
  shows "sorted_wrt (\<lambda>i j. priority (cs ! j) < priority (cs ! i) \<or>
      priority (cs ! i) = priority (cs ! j) \<and> ply_at cs i < ply_at cs j) (sort_by (by_priority cs) xs)"
    "distinct (map (ply_at cs) (sort_by (by_priority cs) xs))"
proof -
  let ?ys = "sort_by (by_priority cs) xs"
  have "mset (map (ply_at cs) ?ys) = mset (map (ply_at cs) xs)"
    using priority_order.mset_sort_by [of cs xs] by simp
  then show d: "distinct (map (ply_at cs) ?ys)"
    using assms mset_eq_imp_distinct_iff by blast
  have "by_priority cs i j \<noteq> OrdGreater \<Longrightarrow> ply_at cs i \<noteq> ply_at cs j \<Longrightarrow>
      priority (cs ! j) < priority (cs ! i) \<or>
      priority (cs ! i) = priority (cs ! j) \<and> ply_at cs i < ply_at cs j" for i j
    by (auto simp: by_priority_def then_with_simps compare_simps)
  then show "sorted_wrt (\<lambda>i j. priority (cs ! j) < priority (cs ! i) \<or>
      priority (cs ! i) = priority (cs ! j) \<and> ply_at cs i < ply_at cs j) ?ys"
    using priority_order.sorted_sort_by [of cs xs] d
    unfolding sorted_wrt_iff_nth_less distinct_conv_nth by simp
qed

text \<open>C12: the trace has one entry per candidate, in the order given, and agrees with the selection:
  an entry is marked selected exactly when it carries a priority rank and a game-order position,
  and a selected candidate was retained by collapsing.\<close>

theorem select_trace_consistent:
  assumes "distinct (map c_ply cs)" and "select n rs cs = Inr sel"
  shows "map ct_ply (st_candidates (trace sel)) = map c_ply cs \<and>
    (\<forall>t\<in>set (st_candidates (trace sel)).
       (ct_selected t \<longleftrightarrow> ct_priority_rank t \<noteq> None) \<and>
       (ct_selected t \<longleftrightarrow> ct_game_order t \<noteq> None) \<and>
       (ct_selected t \<longrightarrow> ct_outcome t = Retained))"
proof -
  obtain ret os where col: "collapse_episodes cs = (ret, os)" by fastforce
  obtain p where p: "optimize ret (adaptive_target n) (positive_available ret) rs = Some p"
    and ts: "st_candidates (trace sel) = map (trace_of ret os (indices p)) cs"
    using select_Inr [OF assms(2) col] unfolding positive_available_def by blast
  note ch = chosen_plies [OF assms(1) col optimize_Some(1) [OF p]]
  have "ct_outcome (trace_of ret os (indices p) c) = Retained"
    if c: "c \<in> set cs" "c_ply c \<in> ply_at ret ` set (indices p)" for c
    using kept_outcome [OF _ collapse_sound(3) [OF assms(1) col c(1)] assms(1) c(1)] ch(3) [OF c]
    by (simp add: trace_of_def)
  then show ?thesis
    unfolding ts
    by (auto simp: trace_of_def rank_map_None priority_order.set_sort_by simp del: not_None_eq)
qed

text \<open>C13: among selected candidates the priority rank orders by higher priority and then by earlier
  ply, and the game-order position orders by ply.\<close>

theorem select_trace_order:
  assumes "distinct (map c_ply cs)" and "select n rs cs = Inr sel"
    and "t \<in> set (st_candidates (trace sel))" and "u \<in> set (st_candidates (trace sel))"
    and "ct_selected t" and "ct_selected u"
  shows "(the (ct_priority_rank t) < the (ct_priority_rank u) \<longleftrightarrow>
      ct_priority u < ct_priority t \<or> ct_priority t = ct_priority u \<and> ct_ply t < ct_ply u) \<and>
    (the (ct_game_order t) < the (ct_game_order u) \<longleftrightarrow> ct_ply t < ct_ply u)"
proof -
  obtain ret os where col: "collapse_episodes cs = (ret, os)" by fastforce
  obtain p where p: "optimize ret (adaptive_target n) (positive_available ret) rs = Some p"
    and ts: "st_candidates (trace sel) = map (trace_of ret os (indices p)) cs"
    using select_Inr [OF assms(2) col] unfolding positive_available_def by blast
  note ch = chosen_plies [OF assms(1) col optimize_Some(1) [OF p]]
  let ?xs = "indices p" and ?ys = "sort_by (by_priority ret) (indices p)"
  obtain c d where c: "c \<in> set cs" "t = trace_of ret os ?xs c" and d: "d \<in> set cs" "u = trace_of ret os ?xs d"
    using assms(3,4) unfolding ts by auto
  obtain i j where i: "i \<in> set ?xs" "ret ! i = c" and j: "j \<in> set ?xs" "ret ! j = d"
    using ch(3) [OF c(1)] ch(3) [OF d(1)] assms(5,6) c(2) d(2) by (auto simp: trace_of_def)
  have gs: "sorted_wrt (\<lambda>i j. ply_at ret i < ply_at ret j) ?xs" using ch(1) by (simp add: sorted_wrt_map)
  note sp = sort_by_priority_strict [OF ch(2)]
  have "i \<in> set ?ys" "j \<in> set ?ys" using i(1) j(1) priority_order.set_sort_by [of ret ?xs] by simp_all
  note ranks = rank_map_the_order [OF sp(2,1) _ this] rank_map_the_order [OF ch(2) gs _ i(1) j(1)]
  have tr: "ct_ply (trace_of ret os ?xs e) = c_ply e" "ct_priority (trace_of ret os ?xs e) = priority e"
    "ct_priority_rank (trace_of ret os ?xs e) = rank_map (ply_at ret) ?ys (c_ply e)"
    "ct_game_order (trace_of ret os ?xs e) = rank_map (ply_at ret) ?xs (c_ply e)" for e
    by (simp_all add: trace_of_def)
  show ?thesis
    unfolding c(2) d(2) tr i(2) [symmetric] j(2) [symmetric]
    by (intro conjI ranks) auto
qed

text \<open>C11: collapsing keeps exactly the candidates without an episode and one representative per
  episode (its earliest decision, or else its latest payoff), in strict game order, and the outcome
  map says of every other candidate whether it was collapsed into which ply, or suppressed.\<close>

theorem collapse_kept:
  assumes "distinct (map c_ply cs)" and "collapse_episodes cs = (ret, os)"
  shows "sorted_wrt (<) (map c_ply ret) \<and> set ret = {c \<in> set cs. kept cs c} \<and>
    (\<forall>c\<in>set cs. outcome_spec cs c (os (c_ply c)))"
  using collapse_sound [OF assms] by blast

text \<open>every counter of every diversity state the program reaches is at most the target, which
  fits in a byte: no \<open>u8\<close> addition overflows.\<close>

theorem selector_counters_bounded:
  "list_all (\<lambda>(s, p). s_count s \<le> adaptive_target n \<and>
      list_all (\<lambda>x. x \<le> adaptive_target n) (s_tactical s @ s_phase s @ s_side s))
    (fold (optimize_step (adaptive_target n) rs cs) [0..<length cs] [(initial_state, initial_plan)]) \<and>
   adaptive_target n \<le> u8_max"
  using table_counters [of _ _ "adaptive_target n" rs cs "length cs"] adaptive_target_bounds [of n]
  by (auto simp: list_all_iff)

section \<open>A concrete game\<close>

text \<open>Three candidates: a decision and a payoff of one episode, and a positive highlight.\<close>

definition sample :: "nat candidate list" where
  "sample =
    [\<lparr>c_ply = 7, c_side = White, c_kind = CK_NowWorse, c_tactical = True, c_phase = Opening,
      c_strength = 40, c_episode = Some \<lparr>ep_id = ''a'', ep_role = Decision\<rparr>, c_payload = 7\<rparr>,
     \<lparr>c_ply = 9, c_side = White, c_kind = CK_GoodPositiveHighlight, c_tactical = True, c_phase = Opening,
      c_strength = 20, c_episode = Some \<lparr>ep_id = ''a'', ep_role = Payoff\<rparr>, c_payload = 9\<rparr>,
     \<lparr>c_ply = 12, c_side = Black, c_kind = CK_GreatPositiveHighlight, c_tactical = False,
      c_phase = Middlegame, c_strength = 10, c_episode = None, c_payload = 12\<rparr>]"

lemma sample_distinct: "distinct (map c_ply sample)"
  by code_simp

lemma sample_collapsed: "map c_ply (collapsed sample) = [7, 12]"
  by code_simp

lemma sample_positive: "list_ex (\<lambda>c. is_positive (c_kind c)) (collapsed sample)"
  by code_simp

definition sample_selection :: "nat selection" where
  "sample_selection = projr (select 40 ReviewBoth sample)"

lemma sample_select: "select 40 ReviewBoth sample = Inr sample_selection"
proof -
  have "\<not> isl (select 40 ReviewBoth sample)" by code_simp
  then show ?thesis by (cases "select 40 ReviewBoth sample") (simp_all add: sample_selection_def)
qed

lemma sample_selected: "selected sample_selection = [7, 12]"
  by code_simp

lemma sample_traces:
  "map (\<lambda>t. (ct_ply t, ct_selected t, ct_priority t)) (st_candidates (trace sample_selection)) =
   [(7, True, 770), (9, False, 670), (12, True, 910)]"
  by code_simp

theorem select_optimal_witness:
  "\<exists>xs. [7, 12] = map (\<lambda>i. c_payload (collapsed sample ! i)) xs \<and> has_positive_index (collapsed sample) xs"
proof -
  have "positive_available (collapsed sample)"
    using sample_positive by (simp add: positive_available_def list_ex_iff)
  moreover obtain xs where "selected sample_selection = map (\<lambda>i. c_payload (collapsed sample ! i)) xs"
    "positive_available (collapsed sample) \<longrightarrow> has_positive_index (collapsed sample) xs"
    using select_optimal [OF sample_select] by (elim exE conjE) (rule that)
  ultimately show ?thesis by (intro exI [of _ xs] conjI) (simp_all add: sample_selected)
qed

theorem select_trace_consistent_witness:
  "map ct_ply (st_candidates (trace sample_selection)) = [7, 9, 12] \<and>
   (\<exists>t\<in>set (st_candidates (trace sample_selection)). ct_ply t = 12 \<and> ct_outcome t = Retained)"
proof -
  note c = select_trace_consistent [OF sample_distinct sample_select]
  have "(12, True, 910) \<in> (\<lambda>t. (ct_ply t, ct_selected t, ct_priority t)) ` set (st_candidates (trace sample_selection))"
    unfolding set_map [symmetric] sample_traces by simp
  then obtain t where "t \<in> set (st_candidates (trace sample_selection))" "ct_ply t = 12" "ct_selected t"
    by auto
  with c show ?thesis by (auto simp: sample_def)
qed

theorem select_trace_order_witness:
  "\<exists>t u. t \<in> set (st_candidates (trace sample_selection)) \<and> u \<in> set (st_candidates (trace sample_selection)) \<and>
     ct_ply t = 12 \<and> ct_ply u = 7 \<and> the (ct_priority_rank t) < the (ct_priority_rank u) \<and>
     the (ct_game_order u) < the (ct_game_order t)"
proof -
  let ?ts = "st_candidates (trace sample_selection)"
  have "(p, True, q) \<in> (\<lambda>t. (ct_ply t, ct_selected t, ct_priority t)) ` set ?ts"
    if "(p, q) \<in> {(12, 910), (7, 770)}" for p q
    using that unfolding set_map [symmetric] sample_traces by auto
  from this [of 12 910] this [of 7 770] obtain t u where
    t: "t \<in> set ?ts" "ct_ply t = 12" "ct_selected t" "ct_priority t = 910" and
    u: "u \<in> set ?ts" "ct_ply u = 7" "ct_selected u" "ct_priority u = 770"
    by auto
  show ?thesis
    using select_trace_order [OF sample_distinct sample_select t(1) u(1) t(3) u(3)]
      select_trace_order [OF sample_distinct sample_select u(1) t(1) u(3) t(3)] t u
    by (intro exI [of _ t] exI [of _ u]) simp
qed

theorem collapse_kept_witness:
  "\<exists>ret os. collapse_episodes sample = (ret, os) \<and> sorted_wrt (<) (map c_ply ret) \<and>
     outcome_spec sample (sample ! 1) (os 9)"
proof -
  obtain ret os where e: "collapse_episodes sample = (ret, os)" by fastforce
  have "sample ! 1 \<in> set sample" "c_ply (sample ! 1) = 9" by (simp_all add: sample_def)
  with collapse_kept [OF sample_distinct e] e show ?thesis by (metis (no_types, lifting))
qed

end
