(* ===== verification/Traffic.thy ===== *)
theory Traffic
  imports OrdMap
begin

text \<open>
  Player traffic policy and deployment ceiling
  (\<open>review_session_processor/admission/player_traffic.rs\<close>, \<open>deployment_ceiling.rs\<close>): sliding
  windows of admission stamps, per player and class, and one for the deployment. Times are
  milliseconds below \<open>2^64\<close>; the clock is an argument of every operation. A \<open>HashMap\<close> is an ordered
  map here: the sources only look up, count, retain and take the least stamp.
\<close>

section \<open>Sliding windows\<close>

definition PLAYER_COMMAND_LIMIT :: nat where "PLAYER_COMMAND_LIMIT = 120"
definition PLAYER_COMMAND_WINDOW_MS :: nat where "PLAYER_COMMAND_WINDOW_MS = 60000"
definition PLAYER_IMPORT_LIMIT :: nat where "PLAYER_IMPORT_LIMIT = 10"
definition PLAYER_IMPORT_WINDOW_MS :: nat where "PLAYER_IMPORT_WINDOW_MS = 600000"
definition PLAYER_OPENING_ANALYSIS_LIMIT :: nat where "PLAYER_OPENING_ANALYSIS_LIMIT = 10"
definition PLAYER_OPENING_ANALYSIS_WINDOW_MS :: nat where "PLAYER_OPENING_ANALYSIS_WINDOW_MS = 60000"
definition PLAYER_TRAFFIC_MAX_PLAYERS :: nat where "PLAYER_TRAFFIC_MAX_PLAYERS = 10000"

lemmas traffic_constants = PLAYER_COMMAND_LIMIT_def PLAYER_COMMAND_WINDOW_MS_def
  PLAYER_IMPORT_LIMIT_def PLAYER_IMPORT_WINDOW_MS_def PLAYER_OPENING_ANALYSIS_LIMIT_def
  PLAYER_OPENING_ANALYSIS_WINDOW_MS_def PLAYER_TRAFFIC_MAX_PLAYERS_def

fun expire_window :: "nat list \<Rightarrow> nat \<Rightarrow> nat \<Rightarrow> nat list" where
  "expire_window [] now w = []"
| "expire_window (s # ss) now w = (if sat_sub now s \<ge> w then expire_window ss now w else s # ss)"

definition seconds_until :: "nat \<Rightarrow> nat" where
  "seconds_until remaining_ms =
     (let seconds = div_ceil remaining_ms 1000
      in max (if seconds \<le> u32_max then seconds else u32_max) 1)"

definition retry_after_seconds :: "nat \<Rightarrow> nat \<Rightarrow> nat \<Rightarrow> nat" where
  "retry_after_seconds oldest w now = seconds_until (sat_sub (sat_add u64_max oldest w) now)"

section \<open>Player windows\<close>

datatype traffic_class = Command | Import | OpeningAnalysis

datatype traffic_decision = Admitted | Rejected | Idempotent

record player_windows =
  commands :: "nat list"
  imports_of :: "nat list"
  opening_analyses :: "nat list"
  accepted_imports :: "(string, nat) btree_map"

definition empty_windows :: player_windows where
  "empty_windows = \<lparr>commands = [], imports_of = [], opening_analyses = [], accepted_imports = []\<rparr>"

definition expire_windows :: "nat \<Rightarrow> player_windows \<Rightarrow> player_windows" where
  "expire_windows now w =
     \<lparr>commands = expire_window (commands w) now PLAYER_COMMAND_WINDOW_MS,
      imports_of = expire_window (imports_of w) now PLAYER_IMPORT_WINDOW_MS,
      opening_analyses = expire_window (opening_analyses w) now PLAYER_OPENING_ANALYSIS_WINDOW_MS,
      accepted_imports =
        bt_retain (\<lambda>_ admitted_at. sat_sub now admitted_at < PLAYER_IMPORT_WINDOW_MS) (accepted_imports w)\<rparr>"

definition is_idle :: "player_windows \<Rightarrow> bool" where
  "is_idle w \<longleftrightarrow>
     commands w = [] \<and> imports_of w = [] \<and> opening_analyses w = [] \<and> accepted_imports w = []"

type_synonym players = "(string, player_windows) btree_map"

definition expire_all :: "players \<Rightarrow> nat \<Rightarrow> players" where
  "expire_all ps now = bt_retain (\<lambda>_ w. \<not> is_idle w) (bt_map_values (expire_windows now) ps)"

definition cardinality_retry_after :: "players \<Rightarrow> nat \<Rightarrow> nat" where
  "cardinality_retry_after ps now =
     (let stamps = concat (map (\<lambda>w. commands w @ imports_of w @ opening_analyses w) (bt_values ps));
          earliest = (case min_by_key (\<lambda>s. s) stamps of None \<Rightarrow> now | Some s \<Rightarrow> s)
      in seconds_until
           (sat_sub (sat_add u64_max earliest (min PLAYER_COMMAND_WINDOW_MS PLAYER_IMPORT_WINDOW_MS)) now))"

fun class_limit :: "traffic_class \<Rightarrow> nat" where
  "class_limit Command = PLAYER_COMMAND_LIMIT"
| "class_limit Import = PLAYER_IMPORT_LIMIT"
| "class_limit OpeningAnalysis = PLAYER_OPENING_ANALYSIS_LIMIT"

fun class_window_ms :: "traffic_class \<Rightarrow> nat" where
  "class_window_ms Command = PLAYER_COMMAND_WINDOW_MS"
| "class_window_ms Import = PLAYER_IMPORT_WINDOW_MS"
| "class_window_ms OpeningAnalysis = PLAYER_OPENING_ANALYSIS_WINDOW_MS"

fun window_of :: "traffic_class \<Rightarrow> player_windows \<Rightarrow> nat list" where
  "window_of Command w = commands w"
| "window_of Import w = imports_of w"
| "window_of OpeningAnalysis w = opening_analyses w"

fun push_stamp :: "traffic_class \<Rightarrow> nat \<Rightarrow> player_windows \<Rightarrow> player_windows" where
  "push_stamp Command now w = w\<lparr>commands := commands w @ [now]\<rparr>"
| "push_stamp Import now w = w\<lparr>imports_of := imports_of w @ [now]\<rparr>"
| "push_stamp OpeningAnalysis now w = w\<lparr>opening_analyses := opening_analyses w @ [now]\<rparr>"

text \<open>The telemetry of one decision: its kind, the retry hint, the occupancy of the window and the
  number of players held.\<close>

record traffic_event =
  te_class :: traffic_class
  te_decision :: traffic_decision
  te_retry_after :: "nat option"
  te_occupancy :: nat
  te_bounded_occupancy :: nat

definition already_accepted :: "players \<Rightarrow> string \<Rightarrow> string option \<Rightarrow> player_windows option" where
  "already_accepted ps key op =
     (case op of None \<Rightarrow> None
      | Some operation_id \<Rightarrow>
          (case bt_get ps key of None \<Rightarrow> None
           | Some w \<Rightarrow> if bt_get (accepted_imports w) operation_id \<noteq> None then Some w else None))"

definition admit ::
  "nat \<Rightarrow> string \<Rightarrow> traffic_class \<Rightarrow> string option \<Rightarrow> players \<Rightarrow> players \<times> traffic_event \<times> (nat + unit)" where
  "admit now key cls op ps0 =
     (let ps = expire_all ps0 now in
      case already_accepted ps key op of
        Some w \<Rightarrow>
          (ps, \<lparr>te_class = cls, te_decision = Idempotent, te_retry_after = None,
                te_occupancy = length (imports_of w), te_bounded_occupancy = length ps\<rparr>, Inr ())
      | None \<Rightarrow>
         if bt_get ps key = None \<and> length ps \<ge> PLAYER_TRAFFIC_MAX_PLAYERS then
           (let retry = cardinality_retry_after ps now
            in (ps, \<lparr>te_class = cls, te_decision = Rejected, te_retry_after = Some retry,
                     te_occupancy = PLAYER_TRAFFIC_MAX_PLAYERS, te_bounded_occupancy = length ps\<rparr>,
                Inl retry))
         else
           (let w = (case bt_get ps key of None \<Rightarrow> empty_windows | Some w \<Rightarrow> w);
                occupancy = length (window_of cls w)
            in if occupancy \<ge> class_limit cls then
                 (let oldest = (case window_of cls w of [] \<Rightarrow> now | s # _ \<Rightarrow> s);
                      retry = retry_after_seconds oldest (class_window_ms cls) now;
                      ps' = bt_insert key w ps
                  in (ps', \<lparr>te_class = cls, te_decision = Rejected, te_retry_after = Some retry,
                            te_occupancy = occupancy, te_bounded_occupancy = length ps'\<rparr>, Inl retry))
               else
                 (let w1 = push_stamp cls now w;
                      w2 = (case op of None \<Rightarrow> w1
                            | Some operation_id \<Rightarrow>
                                w1\<lparr>accepted_imports := bt_insert operation_id now (accepted_imports w1)\<rparr>);
                      ps' = bt_insert key w2 ps
                  in (ps', \<lparr>te_class = cls, te_decision = Admitted, te_retry_after = None,
                            te_occupancy = occupancy + 1, te_bounded_occupancy = length ps'\<rparr>, Inr ()))))"

definition admit_command :: "nat \<Rightarrow> string \<Rightarrow> players \<Rightarrow> players \<times> traffic_event \<times> (nat + unit)" where
  "admit_command now key ps = admit now key Command None ps"

definition admit_import ::
  "nat \<Rightarrow> string \<Rightarrow> string \<Rightarrow> players \<Rightarrow> players \<times> traffic_event \<times> (nat + unit)" where
  "admit_import now key operation_id ps = admit now key Import (Some operation_id) ps"

definition admit_opening_analysis ::
  "nat \<Rightarrow> string \<Rightarrow> players \<Rightarrow> players \<times> traffic_event \<times> (nat + unit)" where
  "admit_opening_analysis now key ps = admit now key OpeningAnalysis None ps"

section \<open>The deployment ceiling\<close>

datatype unavailable_reason = AdmissionLimit | QueueDeadline | RateLimited (retry_seconds: nat)

record ceiling =
  ce_limit :: "nat option"
  ce_window_ms :: nat
  ce_admitted :: "nat list"

definition ENGINE_CEILING_WINDOW_MS :: nat where "ENGINE_CEILING_WINDOW_MS = 60000"

definition ceiling_new :: "nat option \<Rightarrow> nat \<Rightarrow> ceiling" where
  "ceiling_new limit w = \<lparr>ce_limit = limit, ce_window_ms = w, ce_admitted = []\<rparr>"

definition ceiling_check :: "nat \<Rightarrow> ceiling \<Rightarrow> ceiling \<times> (unavailable_reason + unit)" where
  "ceiling_check now c =
     (case ce_limit c of
        None \<Rightarrow> (c, Inr ())
      | Some limit \<Rightarrow>
          (let admitted = expire_window (ce_admitted c) now (ce_window_ms c);
               c' = c\<lparr>ce_admitted := admitted\<rparr>
           in if length admitted < limit then (c', Inr ())
              else (let oldest = (case admitted of [] \<Rightarrow> now | s # _ \<Rightarrow> s)
                    in (c', Inl (RateLimited (retry_after_seconds oldest (ce_window_ms c) now))))))"

definition ceiling_record :: "nat \<Rightarrow> ceiling \<Rightarrow> ceiling" where
  "ceiling_record now c =
     c\<lparr>ce_admitted := expire_window (ce_admitted c) now (ce_window_ms c) @ [now]\<rparr>"

section \<open>Windows and retry hints\<close>

lemma expire_window_drop: "expire_window ss now w = dropWhile (\<lambda>s. sat_sub now s \<ge> w) ss"
  by (induction ss) auto

lemma expire_window_filter:
  "sorted ss \<Longrightarrow> expire_window ss now w = filter (\<lambda>s. now - s < w) ss"
proof (induction ss)
  case (Cons s ss)
  show ?case
  proof (cases "w \<le> now - s")
    case False
    then have "\<forall>x\<in>set ss. now - x < w" using Cons.prems by (auto intro: le_less_trans [OF diff_le_mono2])
    then show ?thesis using False by (simp add: sat_sub_def filter_id_conv)
  qed (use Cons in \<open>simp add: sat_sub_def\<close>)
qed simp

lemma sorted_expire_window: "sorted ss \<Longrightarrow> sorted (expire_window ss now w)"
  by (simp add: expire_window_filter sorted_wrt_filter)

lemma length_expire_window: "length (expire_window ss now w) \<le> length ss"
  by (induction ss) auto

lemma seconds_until_pos: "1 \<le> seconds_until ms"
  by (simp add: seconds_until_def Let_def)

lemma seconds_until_covers: "ms \<le> 1000 * u32_max \<Longrightarrow> ms \<le> 1000 * seconds_until ms"
  using div_ceil_le_iff [of 1000 ms "div_ceil ms 1000"] div_ceil_le_iff [of 1000 ms u32_max]
  by (simp add: seconds_until_def Let_def)

lemma retry_covers:
  assumes "oldest \<le> now" and "now + w \<le> u64_max" and "w \<le> 1000 * u32_max"
  shows "oldest + w \<le> now + 1000 * retry_after_seconds oldest w now"
proof -
  have "oldest + w - now \<le> 1000 * seconds_until (oldest + w - now)"
    using assms by (intro seconds_until_covers) linarith
  moreover have "sat_add u64_max oldest w = oldest + w" using assms by (simp add: sat_add_def)
  ultimately show ?thesis unfolding retry_after_seconds_def sat_sub_def by simp
qed

end
