(* ===== verification/TrafficLimits.thy ===== *)
theory TrafficLimits
  imports Traffic
begin

text \<open>
  What the traffic policy promises, over every sequence of requests with a clock that does not go
  back: no window of a class ever holds more admissions than its limit, a player told to retry
  after some seconds is admitted then, a repeated import is not counted twice, whatever is asked in
  between, and the policy holds at most its bound of players.
\<close>

section \<open>Well-formed policy states\<close>

definition windows_ok :: "nat \<Rightarrow> player_windows \<Rightarrow> bool" where
  "windows_ok now w \<longleftrightarrow> bt_invar (accepted_imports w) \<and>
     (\<forall>c. sorted (window_of c w) \<and> (\<forall>s\<in>set (window_of c w). s \<le> now) \<and>
          length (window_of c w) \<le> class_limit c)"

definition players_ok :: "nat \<Rightarrow> players \<Rightarrow> bool" where
  "players_ok now ps \<longleftrightarrow> bt_invar ps \<and> length ps \<le> PLAYER_TRAFFIC_MAX_PLAYERS \<and>
     (\<forall>k w. bt_get ps k = Some w \<longrightarrow> windows_ok now w)"

definition held :: "string \<Rightarrow> traffic_class \<Rightarrow> players \<Rightarrow> nat list" where
  "held k c ps = (case bt_get ps k of None \<Rightarrow> [] | Some w \<Rightarrow> window_of c w)"

definition live :: "nat \<Rightarrow> nat \<Rightarrow> nat list \<Rightarrow> nat list" where
  "live now w ss = filter (\<lambda>s. now - s < w) ss"

lemma class_limit_pos: "0 < class_limit c"
  by (cases c) (simp_all add: traffic_constants)

lemma class_window_pos: "0 < class_window_ms c"
  by (cases c) (simp_all add: traffic_constants)

lemma window_of_empty [simp]: "window_of c empty_windows = []"
  by (cases c) (simp_all add: empty_windows_def)

lemma empty_windows_ok: "windows_ok now empty_windows"
  by (simp add: windows_ok_def) (simp add: empty_windows_def bt_invar_def)

lemma window_of_push:
  "window_of c (push_stamp cls now w) = window_of c w @ (if c = cls then [now] else [])"
  by (cases cls; cases c) simp_all

lemma window_of_accepted [simp]: "window_of c (w\<lparr>accepted_imports := m\<rparr>) = window_of c w"
  by (cases c) simp_all

lemma accepted_push [simp]: "accepted_imports (push_stamp cls now w) = accepted_imports w"
  by (cases cls) simp_all

lemma window_of_expire:
  "sorted (window_of c w) \<Longrightarrow> window_of c (expire_windows now w) = live now (class_window_ms c) (window_of c w)"
  by (cases c) (simp_all add: expire_windows_def expire_window_filter live_def)

lemma live_le: "s \<in> set (live now w ss) \<Longrightarrow> s \<in> set ss"
  by (simp add: live_def)

lemma live_Nil [simp]: "live now w [] = []"
  by (simp add: live_def)

lemma length_live: "length (live now w ss) \<le> length ss"
  by (simp add: live_def)

lemma windows_ok_expire:
  assumes "windows_ok t w" and "t \<le> now"
  shows "windows_ok now (expire_windows now w)"
proof -
  have acc: "bt_invar (accepted_imports (expire_windows now w))"
    using assms(1) by (simp add: windows_ok_def expire_windows_def bt_retain_invar)
  have "sorted (window_of c (expire_windows now w)) \<and>
      (\<forall>s\<in>set (window_of c (expire_windows now w)). s \<le> now) \<and>
      length (window_of c (expire_windows now w)) \<le> class_limit c" for c
  proof -
    have w: "sorted (window_of c w)" "\<forall>s\<in>set (window_of c w). s \<le> now"
      "length (window_of c w) \<le> class_limit c"
      using assms(1) le_trans [OF _ assms(2)] by (auto simp: windows_ok_def)
    then show ?thesis
      using le_trans [OF length_live [of now "class_window_ms c" "window_of c w"]]
      by (auto simp: window_of_expire sorted_wrt_filter dest: live_le) (simp add: live_def sorted_wrt_filter)
  qed
  with acc show ?thesis by (simp add: windows_ok_def)
qed

lemma idle_windows: "is_idle w \<Longrightarrow> window_of c w = []"
  by (cases c) (simp_all add: is_idle_def)

lemma expire_all_get:
  assumes "bt_invar ps"
  shows "bt_get (expire_all ps now) k = (case bt_get ps k of None \<Rightarrow> None
    | Some w \<Rightarrow> if is_idle (expire_windows now w) then None else Some (expire_windows now w))"
  using assms by (auto simp: expire_all_def bt_get_retain bt_map_values_invar bt_get_map_values split: option.splits)

lemma length_expire_all: "length (expire_all ps now) \<le> length ps"
  unfolding expire_all_def bt_retain_def
  by (rule order.trans [OF length_filter_le]) (simp add: bt_map_values_def)

lemma filter_full: "length (filter P xs) = length xs \<Longrightarrow> filter P xs = xs"
  by (metis filter_True length_filter_less nat_neq_iff)

lemma expire_all_full:
  "length (expire_all ps now) = length ps \<Longrightarrow> expire_all ps now = bt_map_values (expire_windows now) ps"
  unfolding expire_all_def bt_retain_def by (intro filter_full) (simp add: bt_map_values_def)

lemma expire_all_ok:
  assumes "players_ok t ps" and "t \<le> now"
  shows "players_ok now (expire_all ps now)"
    and "held k c (expire_all ps now) = live now (class_window_ms c) (held k c ps)"
proof -
  have inv: "bt_invar ps" and ok: "\<And>k w. bt_get ps k = Some w \<Longrightarrow> windows_ok t w"
    using assms(1) by (auto simp: players_ok_def)
  note length_expire_all [of ps now]
  moreover have "bt_invar (expire_all ps now)"
    using inv by (simp add: expire_all_def bt_retain_invar bt_map_values_invar)
  moreover have "windows_ok now w" if "bt_get (expire_all ps now) k = Some w" for k w
    using that windows_ok_expire [OF ok assms(2)] unfolding expire_all_get [OF inv]
    by (auto split: option.splits if_splits)
  ultimately show "players_ok now (expire_all ps now)"
    using assms(1) by (auto simp: players_ok_def)
  show "held k c (expire_all ps now) = live now (class_window_ms c) (held k c ps)"
  proof (cases "bt_get ps k")
    case None
    then show ?thesis by (simp add: held_def expire_all_get [OF inv] live_def)
  next
    case (Some w)
    have "window_of c (expire_windows now w) = live now (class_window_ms c) (window_of c w)"
      using ok [OF Some] by (intro window_of_expire) (simp add: windows_ok_def)
    then show ?thesis using Some idle_windows [of "expire_windows now w" c]
      by (simp add: held_def expire_all_get [OF inv])
  qed
qed

section \<open>One request\<close>

lemma players_ok_insert:
  assumes "players_ok now ps" and "windows_ok now w"
    and "bt_get ps key \<noteq> None \<or> length ps < PLAYER_TRAFFIC_MAX_PLAYERS"
  shows "players_ok now (bt_insert key w ps)"
  using assms by (auto simp: players_ok_def bt_get_insert bt_insert_invar length_bt_insert)

lemma held_insert: "held k c (bt_insert key w ps) = (if k = key then window_of c w else held k c ps)"
  by (simp add: held_def bt_get_insert)

text \<open>The four ways a request ends, over the expired state.\<close>

lemma admit_cases:
  fixes ps0 now
  defines "ps \<equiv> expire_all ps0 now"
  assumes "admit now key cls op ps0 = (ps', ev, res)"
  obtains (idempotent) w where "already_accepted ps key op = Some w" and "ps' = ps"
      and "te_decision ev = Idempotent" and "res = Inr ()"
  | (full) "already_accepted ps key op = None" and "bt_get ps key = None"
      and "PLAYER_TRAFFIC_MAX_PLAYERS \<le> length ps" and "ps' = ps" and "te_decision ev = Rejected"
      and "res = Inl (cardinality_retry_after ps now)"
  | (limited) w where "already_accepted ps key op = None"
      and "bt_get ps key \<noteq> None \<or> length ps < PLAYER_TRAFFIC_MAX_PLAYERS"
      and "w = (case bt_get ps key of None \<Rightarrow> empty_windows | Some w \<Rightarrow> w)"
      and "class_limit cls \<le> length (window_of cls w)" and "ps' = bt_insert key w ps"
      and "te_decision ev = Rejected"
      and "res = Inl (retry_after_seconds (case window_of cls w of [] \<Rightarrow> now | s # _ \<Rightarrow> s) (class_window_ms cls) now)"
  | (admitted) w where "already_accepted ps key op = None"
      and "bt_get ps key \<noteq> None \<or> length ps < PLAYER_TRAFFIC_MAX_PLAYERS"
      and "w = (case bt_get ps key of None \<Rightarrow> empty_windows | Some w \<Rightarrow> w)"
      and "length (window_of cls w) < class_limit cls"
      and "ps' = bt_insert key (case op of None \<Rightarrow> push_stamp cls now w
         | Some i \<Rightarrow> (push_stamp cls now w)\<lparr>accepted_imports := bt_insert i now (accepted_imports w)\<rparr>) ps"
      and "te_decision ev = Admitted" and "res = Inr ()"
proof -
  note adm = assms(2) [unfolded admit_def, folded ps_def, unfolded Let_def]
  show thesis
  proof (cases "already_accepted ps key op")
    case (Some w)
    then show thesis using adm by (intro idempotent) auto
  next
    case None
    let ?w = "case bt_get ps key of None \<Rightarrow> empty_windows | Some w \<Rightarrow> w"
    show thesis
    proof (cases "bt_get ps key = None \<and> PLAYER_TRAFFIC_MAX_PLAYERS \<le> length ps")
      case True
      then show thesis using adm None by (intro full) auto
    next
      case False
      then have room: "bt_get ps key \<noteq> None \<or> length ps < PLAYER_TRAFFIC_MAX_PLAYERS" by auto
      show thesis
      proof (cases "class_limit cls \<le> length (window_of cls ?w)")
        case True
        then show thesis using adm None False room by (intro limited [OF None room refl]) auto
      next
        case False': False
        then have "length (window_of cls ?w) < class_limit cls" by simp
        then show thesis using adm None False False' room
          by (intro admitted [OF None room refl]) (auto split: option.splits)
      qed
    qed
  qed
qed

lemma held_default:
  "window_of c (case bt_get ps key of None \<Rightarrow> empty_windows | Some w \<Rightarrow> w) = held key c ps"
  by (simp add: held_def split: option.splits)

lemma default_ok:
  "players_ok now ps \<Longrightarrow> windows_ok now (case bt_get ps key of None \<Rightarrow> empty_windows | Some w \<Rightarrow> w)"
  by (simp add: players_ok_def empty_windows_ok split: option.splits)

lemma windows_ok_push:
  assumes "windows_ok now w" and "length (window_of cls w) < class_limit cls"
  shows "windows_ok now (push_stamp cls now w)"
  using assms by (auto simp: windows_ok_def window_of_push sorted_append)

lemma windows_ok_accept:
  "windows_ok now w \<Longrightarrow> bt_invar m \<Longrightarrow> windows_ok now (w\<lparr>accepted_imports := m\<rparr>)"
  by (simp add: windows_ok_def)

text \<open>A request keeps the state well-formed; the windows it leaves are the live parts of the old
  ones, with the stamp of the request appended exactly when it is admitted.\<close>

lemma admit_step:
  assumes ok: "players_ok t ps0" "t \<le> now" and adm: "admit now key cls op ps0 = (ps', ev, res)"
  shows "players_ok now ps' \<and>
    (te_decision ev = Admitted \<longrightarrow> length (live now (class_window_ms cls) (held key cls ps0)) < class_limit cls) \<and>
    (\<forall>k c. held k c ps' = live now (class_window_ms c) (held k c ps0) @
       (if te_decision ev = Admitted \<and> k = key \<and> c = cls then [now] else []))"
proof -
  let ?ps = "expire_all ps0 now"
  note e = expire_all_ok [OF ok]
  from adm show ?thesis
  proof (cases rule: admit_cases)
    case (idempotent w)
    then show ?thesis using e by simp
  next
    case full
    then show ?thesis using e by simp
  next
    case (limited w)
    then show ?thesis
      using e players_ok_insert [OF e(1) default_ok [OF e(1)]] by (auto simp: held_insert held_default)
  next
    case (admitted w)
    let ?w = "case op of None \<Rightarrow> push_stamp cls now w
         | Some i \<Rightarrow> (push_stamp cls now w)\<lparr>accepted_imports := bt_insert i now (accepted_imports w)\<rparr>"
    have w: "windows_ok now w" using admitted(3) default_ok [OF e(1)] by simp
    then have "windows_ok now ?w"
      using windows_ok_push [OF w admitted(4)]
      by (auto simp: windows_ok_accept bt_insert_invar windows_ok_def split: option.splits)
    moreover have "window_of c ?w = window_of c w @ (if c = cls then [now] else [])" for c
      by (simp add: window_of_push split: option.splits)
    moreover have "window_of c w = held key c ?ps" for c
      using admitted(3) held_default by simp
    ultimately show ?thesis
      using admitted players_ok_insert [OF e(1)] e by (auto simp: held_insert)
  qed
qed

section \<open>Every sequence of requests\<close>

type_synonym traffic_log = "(nat \<times> string \<times> traffic_class) list"

inductive traffic_reachable :: "players \<Rightarrow> nat \<Rightarrow> traffic_log \<Rightarrow> bool" where
  traffic_start: "traffic_reachable [] 0 []"
| traffic_request: "\<lbrakk> traffic_reachable ps t log; t \<le> now; admit now key cls op ps = (ps', ev, res) \<rbrakk> \<Longrightarrow>
    traffic_reachable ps' now
      (if te_decision ev = Admitted then log @ [(now, key, cls)] else log)"

definition stamps :: "string \<Rightarrow> traffic_class \<Rightarrow> traffic_log \<Rightarrow> nat list" where
  "stamps key cls log = map fst (filter (\<lambda>(s, k, c). k = key \<and> c = cls) log)"

lemma stamps_snoc:
  "stamps key cls (log @ [(s, k, c)]) = stamps key cls log @ (if k = key \<and> c = cls then [s] else [])"
  by (simp add: stamps_def)

lemma live_live: "t \<le> now \<Longrightarrow> live now w (live t w ss) = live now w ss"
  by (auto simp: live_def intro!: filter_cong)

lemma live_append: "live now w (xs @ ys) = live now w xs @ live now w ys"
  by (simp add: live_def)

lemma live_Cons: "live now w (x # xs) = (if now - x < w then [x] else []) @ live now w xs"
  by (simp add: live_def)

lemma live_self: "0 < w \<Longrightarrow> live now w [now] = [now]"
  by (simp add: live_def)

definition within :: "nat \<Rightarrow> nat \<Rightarrow> nat list \<Rightarrow> nat list" where
  "within t w ss = filter (\<lambda>s. s \<le> t \<and> t < s + w) ss"

lemma within_later:
  assumes "\<forall>s\<in>set ss. s \<le> now" and "now \<le> t"
  shows "length (within t w ss) \<le> length (live now w ss)"
proof -
  have "within t w ss = filter (\<lambda>s. t < s + w \<and> s \<le> t) (live now w ss)"
    using assms by (auto simp: within_def live_def intro!: filter_cong)
  then show ?thesis by simp
qed

lemma traffic_invariant:
  assumes "traffic_reachable ps t log"
  shows "players_ok t ps \<and> (\<forall>e\<in>set log. fst e \<le> t) \<and>
    (\<forall>k c. live t (class_window_ms c) (stamps k c log) = live t (class_window_ms c) (held k c ps)) \<and>
    (\<forall>u k c. length (within u (class_window_ms c) (stamps k c log)) \<le> class_limit c)"
  using assms
proof induction
  case traffic_start
  show ?case by (simp add: players_ok_def bt_invar_def stamps_def within_def held_def)
next
  case (traffic_request ps t log now key cls op ps' ev res)
  let ?log = "if te_decision ev = Admitted then log @ [(now, key, cls)] else log"
  let ?W = class_window_ms
  have ok: "players_ok t ps" and old: "\<forall>e\<in>set log. fst e \<le> t"
    and held: "\<And>k c. live t (?W c) (stamps k c log) = live t (?W c) (held k c ps)"
    and lim: "\<And>u k c. length (within u (?W c) (stamps k c log)) \<le> class_limit c"
    using traffic_request.IH by blast+
  note st = admit_step [OF ok traffic_request.hyps(2,3)]
  have le: "\<forall>e\<in>set ?log. fst e \<le> now" using old traffic_request.hyps(2) by auto
  have live: "live now (?W c) (stamps k c log) = live now (?W c) (held k c ps)" for k c
    using arg_cong [OF held [of c k], of "live now (?W c)"]
    by (simp add: live_live [OF traffic_request.hyps(2)])
  have new: "live now (?W c) (stamps k c ?log) = live now (?W c) (held k c ps')" for k c
    using st live [of c k] class_window_pos [of c]
    by (auto simp: stamps_snoc live_append live_live live_self)
  have "length (within u (?W c) (stamps k c ?log)) \<le> class_limit c" for u k c
  proof (cases "te_decision ev = Admitted \<and> k = key \<and> c = cls \<and> now \<le> u")
    case True
    have "\<forall>s\<in>set (stamps k c ?log). s \<le> now" using le by (auto simp: stamps_def)
    then have "length (within u (?W c) (stamps k c ?log)) \<le> length (live now (?W c) (held k c ps'))"
      using within_later [of "stamps k c ?log" now u "?W c"] True unfolding new by simp
    also have "\<dots> \<le> length (held k c ps')" by (rule length_live)
    also have "\<dots> \<le> class_limit c"
      using st True class_limit_pos [of c]
      by (auto simp: players_ok_def windows_ok_def held_def split: option.splits)
    finally show ?thesis .
  next
    case False
    then have "within u (?W c) (stamps k c ?log) = within u (?W c) (stamps k c log)"
      by (auto simp: stamps_snoc within_def)
    then show ?thesis using lim by simp
  qed
  then show ?case using st le new by blast
qed

lemma players_ok_later: "players_ok t ps \<Longrightarrow> t \<le> now \<Longrightarrow> players_ok now ps"
  unfolding players_ok_def windows_ok_def by (meson order_trans)

section \<open>Requests in between\<close>

text \<open>Requests of anyone in turn: the state they leave, and those that are admitted.\<close>

fun serve :: "(nat \<times> string \<times> traffic_class \<times> string option) list \<Rightarrow> players \<Rightarrow> players" where
  "serve [] ps = ps"
| "serve ((now, key, cls, op) # rs) ps = serve rs (fst (admit now key cls op ps))"

fun admissions :: "(nat \<times> string \<times> traffic_class \<times> string option) list \<Rightarrow> players \<Rightarrow> traffic_log" where
  "admissions [] ps = []"
| "admissions ((now, key, cls, op) # rs) ps =
     (case admit now key cls op ps of
        (ps', ev, res) \<Rightarrow> (if te_decision ev = Admitted then [(now, key, cls)] else []) @ admissions rs ps')"

lemma serve_ok:
  assumes "players_ok t ps" and "sorted (t # map fst rs @ [later])"
  shows "players_ok later (serve rs ps) \<and>
    ((\<forall>s. (s, key, cls) \<notin> set (admissions rs ps)) \<longrightarrow>
      live later (class_window_ms cls) (held key cls (serve rs ps)) = live later (class_window_ms cls) (held key cls ps))"
  using assms
proof (induction rs arbitrary: t ps)
  case Nil
  then show ?case using expire_all_ok players_ok_later by simp
next
  case (Cons r rs)
  obtain now k c op where r: "r = (now, k, c, op)" by (cases r)
  obtain ps' ev res where a: "admit now k c op ps = (ps', ev, res)" by (cases "admit now k c op ps")
  have le: "t \<le> now" "now \<le> later" "sorted (now # map fst rs @ [later])" using Cons.prems(2) r by auto
  note st = admit_step [OF Cons.prems(1) le(1) a]
  from Cons.IH [of now ps'] st le(3) have IH: "players_ok later (serve rs ps')"
    "(\<forall>s. (s, key, cls) \<notin> set (admissions rs ps')) \<Longrightarrow>
      live later (class_window_ms cls) (held key cls (serve rs ps')) = live later (class_window_ms cls) (held key cls ps')"
    by blast+
  then show ?case using st r a by (auto simp: live_live [OF le(2)] split: if_splits)
qed

text \<open>An accepted import is remembered for its window, whatever is asked meanwhile.\<close>

definition remembers :: "string \<Rightarrow> string \<Rightarrow> nat \<Rightarrow> players \<Rightarrow> bool" where
  "remembers key i s ps \<longleftrightarrow> (\<exists>w. bt_get ps key = Some w \<and> bt_get (accepted_imports w) i = Some s)"

lemma remembers_expired:
  assumes "players_ok t ps" and "remembers key i s ps" and "now - s < PLAYER_IMPORT_WINDOW_MS"
  shows "remembers key i s (expire_all ps now)"
proof -
  obtain w where w: "bt_get ps key = Some w" "bt_get (accepted_imports w) i = Some s"
    using assms(2) by (auto simp: remembers_def)
  have "bt_invar (accepted_imports w)" "bt_invar ps" using assms(1) w(1) by (auto simp: players_ok_def windows_ok_def)
  moreover from this have "bt_get (accepted_imports (expire_windows now w)) i = Some s"
    using w(2) assms(3) by (simp add: expire_windows_def bt_get_retain sat_sub_def)
  ultimately show ?thesis using w(1) by (auto simp: remembers_def expire_all_get is_idle_def)
qed

lemma remembers_accepted: "remembers key i s ps \<Longrightarrow> already_accepted ps key (Some i) \<noteq> None"
  by (auto simp: remembers_def already_accepted_def)

lemma admit_remembers:
  assumes "players_ok t ps" and "remembers key i s ps" and "now - s < PLAYER_IMPORT_WINDOW_MS"
    and "admit now k c op ps = (ps', ev, res)"
  shows "remembers key i s ps'"
proof -
  note e = remembers_expired [OF assms(1-3)]
  from assms(4) show ?thesis
  proof (cases rule: admit_cases)
    case (limited w)
    then show ?thesis using e by (auto simp: remembers_def bt_get_insert)
  next
    case (admitted w)
    have "\<not> (k = key \<and> op = Some i)" using admitted(1) remembers_accepted [OF e] by auto
    then show ?thesis using e admitted by (auto simp: remembers_def bt_get_insert split: option.splits)
  qed (use e in simp_all)
qed

lemma serve_remembers:
  assumes "players_ok t ps" and "sorted (t # map fst rs @ [later])" and "remembers key i s ps"
    and "later - s < PLAYER_IMPORT_WINDOW_MS"
  shows "remembers key i s (serve rs ps)"
  using assms
proof (induction rs arbitrary: t ps)
  case (Cons r rs)
  obtain now k c op where r: "r = (now, k, c, op)" by (cases r)
  obtain ps' ev res where a: "admit now k c op ps = (ps', ev, res)" by (cases "admit now k c op ps")
  have le: "t \<le> now" "now \<le> later" "sorted (now # map fst rs @ [later])" using Cons.prems(2) r by auto
  have "now - s < PLAYER_IMPORT_WINDOW_MS" using le(2) Cons.prems(4) by linarith
  from admit_remembers [OF Cons.prems(1,3) this a] Cons.IH [of now ps'] admit_step [OF Cons.prems(1) le(1) a] le(3)
  show ?case using Cons.prems(4) r a by simp
qed simp

section \<open>A full window\<close>

text \<open>After the seconds of the hint the window has room again.\<close>

lemma retry_frees:
  assumes ok: "players_ok t ps" and "t \<le> now" and adm: "admit now key cls op ps = (ps', ev, Inl retry)" and "bt_get ps' key \<noteq> None"
    and "now + class_window_ms cls \<le> u64_max" and "now + 1000 * retry \<le> later"
  shows "length (live later (class_window_ms cls) (held key cls ps')) < class_limit cls"
proof -
  let ?W = "class_window_ms cls"
  from adm obtain w where lim: "w = (case bt_get (expire_all ps now) key of None \<Rightarrow> empty_windows | Some w \<Rightarrow> w)"
      "class_limit cls \<le> length (window_of cls w)" "ps' = bt_insert key w (expire_all ps now)"
      "retry = retry_after_seconds (case window_of cls w of [] \<Rightarrow> now | s # _ \<Rightarrow> s) ?W now"
    using assms(4) by (cases rule: admit_cases) auto
  have held: "held key cls ps' = window_of cls w" using lim(3) by (simp add: held_insert)
  obtain s ss where ss: "window_of cls w = s # ss"
    using lim(2) class_limit_pos [of cls] by (cases "window_of cls w") auto
  have w: "windows_ok now w" using default_ok [OF expire_all_ok(1) [OF ok assms(2)]] lim(1) by simp
  then have "s \<le> now" "length (s # ss) \<le> class_limit cls"
    unfolding windows_ok_def using ss by (metis list.set_intros(1), metis)
  moreover have "?W \<le> 1000 * u32_max" by (cases cls) (simp_all add: traffic_constants)
  ultimately have "s + ?W \<le> later"
    using retry_covers [of s now ?W] assms(5,6) lim(4) ss by simp
  then have "\<not> later - s < ?W" by simp
  then show ?thesis
    using \<open>length (s # ss) \<le> class_limit cls\<close> length_live [of later ?W ss]
    by (simp add: held ss live_Cons)
qed

lemma expire_all_room:
  assumes "players_ok now ps" and "bt_get ps key \<noteq> None"
  shows "bt_get (expire_all ps later) key \<noteq> None \<or> length (expire_all ps later) < PLAYER_TRAFFIC_MAX_PLAYERS"
proof (rule disjCI)
  assume "\<not> length (expire_all ps later) < PLAYER_TRAFFIC_MAX_PLAYERS"
  then have "length (expire_all ps later) = length ps"
    using assms(1) length_expire_all [of ps later] by (simp add: players_ok_def)
  then have "expire_all ps later = bt_map_values (expire_windows later) ps"
    by (rule expire_all_full)
  then show "bt_get (expire_all ps later) key \<noteq> None"
    using assms(2) by (simp add: bt_get_map_values)
qed

section \<open>Properties\<close>

text \<open>C3: in every interval of the length of a class's window, at most the class's limit of requests
  of one player is admitted, whatever the requests, as long as the clock that stamps them does not go
  back from one to the next; and the policy never holds more players than its bound.\<close>

theorem traffic_window_limit:
  assumes "traffic_reachable ps t log"
  shows "length (filter (\<lambda>s. s \<le> u \<and> u < s + class_window_ms c) (stamps key c log)) \<le> class_limit c \<and>
    length ps \<le> PLAYER_TRAFFIC_MAX_PLAYERS"
  using traffic_invariant [OF assms] by (simp add: within_def players_ok_def)

text \<open>C17: a player refused because its window is full is admitted when it comes back after the
  seconds it was told or later, whatever anyone asks in between, if no request of that player and class
  was admitted in between; unless the policy then holds its bound of players, all of them others. With no
  request in between it is admitted for certain.\<close>

theorem traffic_retry_honest:
  assumes "traffic_reachable ps t log" and "t \<le> now"
    and "admit now key cls op ps = (ps', ev, Inl retry)" and "bt_get ps' key \<noteq> None"
    and "now + class_window_ms cls \<le> u64_max"
    and "sorted (now # map fst rs @ [later])" and "now + 1000 * retry \<le> later"
    and "\<forall>s. (s, key, cls) \<notin> set (admissions rs ps')"
    and "admit later key cls op' (serve rs ps') = (ps'', ev', res)"
  shows "(res = Inr () \<or>
      bt_get (expire_all (serve rs ps') later) key = None \<and>
      length (expire_all (serve rs ps') later) = PLAYER_TRAFFIC_MAX_PLAYERS) \<and>
    (rs = [] \<longrightarrow> res = Inr ())"
proof -
  let ?W = "class_window_ms cls"
  have ok: "players_ok t ps" using traffic_invariant [OF assms(1)] by blast
  have ok': "players_ok now ps'" using admit_step [OF ok assms(2,3)] by blast
  from serve_ok [OF ok' assms(6), of key cls] assms(8)
  have served: "players_ok later (serve rs ps')" "live later ?W (held key cls (serve rs ps')) = live later ?W (held key cls ps')"
    by blast+
  note short = retry_frees [OF ok assms(2,3,4,5,7)]
  note e = expire_all_ok [OF served(1) order_refl]
  from assms(9) show ?thesis
  proof (cases rule: admit_cases)
    case full
    then have "length (expire_all (serve rs ps') later) = PLAYER_TRAFFIC_MAX_PLAYERS"
      using e(1) by (simp add: players_ok_def)
    moreover have "rs \<noteq> []" using full(2,3) expire_all_room [OF ok' assms(4), of later] by auto
    ultimately show ?thesis using full(2) by simp
  next
    case (limited w')
    then show ?thesis using short served(2) e(2) by (simp add: held_default)
  qed simp_all
qed

text \<open>C18: repeating an accepted import within the import window is accepted again without taking
  a place in any window, whatever anyone asks in between, other imports of the same player included.\<close>

theorem traffic_import_idempotent:
  assumes "traffic_reachable ps t log" and "t \<le> now"
    and "admit_import now key operation_id ps = (ps', ev, Inr ())" and "te_decision ev = Admitted"
    and "sorted (now # map fst rs @ [later])" and "later - now < PLAYER_IMPORT_WINDOW_MS"
    and "admit_import later key operation_id (serve rs ps') = (ps'', ev', res)"
  shows "res = Inr () \<and> te_decision ev' = Idempotent \<and>
    (\<forall>k c. set (held k c ps'') \<subseteq> set (held k c (serve rs ps')))"
proof -
  have ok: "players_ok t ps" using traffic_invariant [OF assms(1)] by blast
  note adm = assms(3) [unfolded admit_import_def]
  have ok': "players_ok now ps'" using admit_step [OF ok assms(2) adm] by blast
  from adm have "remembers key operation_id now ps'"
    by (cases rule: admit_cases) (use assms(4) in \<open>auto simp: remembers_def bt_get_insert\<close>)
  from serve_remembers [OF ok' assms(5) this assms(6)] have known: "remembers key operation_id now (serve rs ps')" .
  have served: "players_ok later (serve rs ps')" using serve_ok [OF ok' assms(5)] by blast
  have again: "already_accepted (expire_all (serve rs ps') later) key (Some operation_id) \<noteq> None"
    by (rule remembers_accepted [OF remembers_expired [OF served known assms(6)]])
  from assms(7) [unfolded admit_import_def] show ?thesis
  proof (cases rule: admit_cases)
    case (idempotent v)
    then show ?thesis using expire_all_ok(2) [OF served order_refl] live_le by auto
  qed (use again in simp_all)
qed

section \<open>Concrete requests\<close>

lemma serve_reachable:
  assumes "traffic_reachable ps t log" and "sorted (t # map fst rs)"
  shows "\<exists>log'. traffic_reachable (serve rs ps) (last (t # map fst rs)) log'"
  using assms
proof (induction rs arbitrary: ps t log)
  case (Cons r rs)
  obtain now key cls op where r: "r = (now, key, cls, op)" by (cases r)
  obtain ps' ev res where a: "admit now key cls op ps = (ps', ev, res)" by (cases "admit now key cls op ps")
  from traffic_request [OF Cons.prems(1) _ a] Cons.prems(2) r
  have "traffic_reachable ps' now (if te_decision ev = Admitted then log @ [(now, key, cls)] else log)" by simp
  from Cons.IH [OF this] Cons.prems(2) r a show ?case by auto
qed auto

definition ten_analyses :: players where
  "ten_analyses = serve (replicate 10 (5, ''p'', OpeningAnalysis, None)) []"

lemma ten_analyses_reachable: "\<exists>log. traffic_reachable ten_analyses 5 log"
  using serve_reachable [OF traffic_start, of "replicate 10 (5, ''p'', OpeningAnalysis, None)"]
  by (simp add: ten_analyses_def)

theorem traffic_window_limit_witness:
  "length (filter (\<lambda>s. s \<le> 7 \<and> 7 < s + class_window_ms Command) (stamps ''p'' Command [(5, ''p'', Command)])) \<le> class_limit Command"
proof -
  have "traffic_reachable (fst (admit 5 ''p'' Command None [])) 5 [(5, ''p'', Command)]"
  proof -
    have "te_decision (fst (snd (admit 5 ''p'' Command None []))) = Admitted" by code_simp
    then show ?thesis
      using traffic_request [OF traffic_start, of 5 "''p''" Command None
          "fst (admit 5 ''p'' Command None [])" "fst (snd (admit 5 ''p'' Command None []))"
          "snd (snd (admit 5 ''p'' Command None []))"] by simp
  qed
  from traffic_window_limit [OF this] show ?thesis by blast
qed

theorem traffic_retry_honest_witness:
  "\<exists>ps' ps'' ev ev'. admit 1005 ''p'' OpeningAnalysis None ten_analyses = (ps', ev, Inl 59) \<and>
     admit 60005 ''p'' OpeningAnalysis None (serve [(2000, ''q'', Import, Some ''i''), (9000, ''p'', Command, None)] ps') = (ps'', ev', Inr ())"
proof -
  let ?rs = "[(2000, ''q'', Import, Some ''i''), (9000, ''p'', Command, None)]"
  let ?r = "admit 1005 ''p'' OpeningAnalysis None ten_analyses"
  have r: "snd (snd ?r) = Inl 59" "bt_get (fst ?r) ''p'' \<noteq> None" by code_simp+
  have between: "map snd (admissions ?rs (fst ?r)) = [(''q'', Import), (''p'', Command)]"
    "bt_get (expire_all (serve ?rs (fst ?r)) 60005) ''p'' \<noteq> None"
    by code_simp+
  obtain ps' ev where e: "?r = (ps', ev, Inl 59)" using r(1) by (metis prod.collapse)
  obtain ps'' ev' res where e': "admit 60005 ''p'' OpeningAnalysis None (serve ?rs ps') = (ps'', ev', res)"
    by (cases "admit 60005 ''p'' OpeningAnalysis None (serve ?rs ps')")
  obtain log where "traffic_reachable ten_analyses 5 log" using ten_analyses_reachable by blast
  note retry = traffic_retry_honest [OF this _ e _ _ _ _ _ e']
  have ps': "fst ?r = ps'" using e by simp
  have "(''p'', OpeningAnalysis) \<notin> set (map snd (admissions ?rs ps'))"
    unfolding between(1) [unfolded ps'] by simp
  then have "\<forall>s. (s, ''p'', OpeningAnalysis) \<notin> set (admissions ?rs ps')" unfolding set_map by force
  then have "res = Inr ()" using retry r(2) between(2) e by (auto simp: traffic_constants)
  with e e' show ?thesis by blast
qed

theorem traffic_import_idempotent_witness:
  "\<exists>ps' ev ps'' ev'. admit_import 5 ''p'' ''op'' [] = (ps', ev, Inr ()) \<and>
     admit_import 900 ''p'' ''op'' (serve [(100, ''p'', Import, Some ''other'')] ps') = (ps'', ev', Inr ()) \<and> te_decision ev' = Idempotent"
proof -
  let ?rs = "[(100, ''p'', Import, Some ''other'')]"
  let ?r = "admit_import 5 ''p'' ''op'' []"
  have r: "snd (snd ?r) = Inr ()" "te_decision (fst (snd ?r)) = Admitted" by code_simp+
  obtain ps' ev where e: "?r = (ps', ev, Inr ())" using r(1) by (metis prod.collapse)
  obtain ps'' ev' res where e': "admit_import 900 ''p'' ''op'' (serve ?rs ps') = (ps'', ev', res)"
    by (cases "admit_import 900 ''p'' ''op'' (serve ?rs ps')")
  from traffic_import_idempotent [OF traffic_start _ e _ _ _ e'] r(2) e
  show ?thesis using e e' by (auto simp: traffic_constants)
qed

end
