(* ===== verification/Admission.thy ===== *)
theory Admission
  imports Traffic
begin

text \<open>
  Admission to the provider pools (\<open>review_session_processor/admission.rs\<close>,
  \<open>admission/engine.rs\<close>). Every acquisition is a task; the operations of the source that other
  tasks can observe (semaphore, waiting counter, claim set, ceiling) are single steps, so that all
  interleavings are covered. The semaphore is \<open>tokio\<close>'s: its operations are a parameter with the
  documented laws of a counting semaphore as the locale \<open>semaphore\<close>.
\<close>

section \<open>The semaphore\<close>

record 's semaphore_ops =
  sem_new :: "nat \<Rightarrow> 's"
  sem_try_acquire :: "'s \<Rightarrow> 's option"
  sem_release :: "'s \<Rightarrow> 's"
  sem_available :: "'s \<Rightarrow> nat"

locale semaphore =
  fixes S :: "'s semaphore_ops"
  assumes available_new: "sem_available S (sem_new S n) = n"
    and try_acquire_None: "sem_try_acquire S s = None \<longleftrightarrow> sem_available S s = 0"
    and try_acquire_Some: "sem_try_acquire S s = Some s' \<Longrightarrow> sem_available S s = Suc (sem_available S s')"
    and available_release: "sem_available S (sem_release S s) = Suc (sem_available S s)"

definition counting_semaphore :: "nat semaphore_ops" where
  "counting_semaphore =
     \<lparr>sem_new = (\<lambda>n. n), sem_try_acquire = (\<lambda>n. if n = 0 then None else Some (n - 1)),
      sem_release = Suc, sem_available = (\<lambda>n. n)\<rparr>"

interpretation counting: semaphore counting_semaphore
  by unfold_locales (auto simp: counting_semaphore_def split: if_splits)

section \<open>Pools\<close>

record 's pool =
  po_slots :: 's
  po_waiting :: nat
  po_max_waiting :: nat
  po_queue_deadline :: nat

definition pool_new :: "'s semaphore_ops \<Rightarrow> nat \<Rightarrow> nat \<Rightarrow> nat \<Rightarrow> 's pool" where
  "pool_new S slots max_waiting queue_deadline =
     \<lparr>po_slots = sem_new S slots, po_waiting = 0, po_max_waiting = max_waiting,
      po_queue_deadline = queue_deadline\<rparr>"

text \<open>Where one call of \<open>acquire_until_observed\<close> stands: not started, past \<open>fetch_add\<close> with the value
  it returned, waiting until a time, woken with a permit but still counted as waiting, holding its
  permit, or turned away.\<close>

datatype pool_phase =
    Arriving nat
  | Entered nat nat
  | WaitingUntil nat
  | Woken
  | Holding
  | TurnedAway unavailable_reason

definition pool_leave :: "'s pool \<Rightarrow> 's pool" where
  "pool_leave p = p\<lparr>po_waiting := po_waiting p - 1\<rparr>"

definition wait_until :: "nat \<Rightarrow> nat \<Rightarrow> 's pool \<Rightarrow> nat" where
  "wait_until now deadline p = now + min (sat_sub deadline now) (po_queue_deadline p)"

inductive pool_move ::
  "'s semaphore_ops \<Rightarrow> nat \<Rightarrow> 's pool \<Rightarrow> pool_phase \<Rightarrow> 's pool \<Rightarrow> pool_phase \<Rightarrow> bool"
  for S now p where
  pool_grab: "sem_try_acquire S (po_slots p) = Some s \<Longrightarrow>
    pool_move S now p (Arriving deadline) (p\<lparr>po_slots := s\<rparr>) Holding"
| pool_enter: "sem_try_acquire S (po_slots p) = None \<Longrightarrow>
    pool_move S now p (Arriving deadline) (p\<lparr>po_waiting := po_waiting p + 1\<rparr>)
      (Entered deadline (po_waiting p))"
| pool_full: "po_max_waiting p \<le> waiting \<Longrightarrow>
    pool_move S now p (Entered deadline waiting) (pool_leave p) (TurnedAway AdmissionLimit)"
| pool_wait: "waiting < po_max_waiting p \<Longrightarrow>
    pool_move S now p (Entered deadline waiting) p (WaitingUntil (wait_until now deadline p))"
| pool_wake: "sem_try_acquire S (po_slots p) = Some s \<Longrightarrow>
    pool_move S now p (WaitingUntil u) (p\<lparr>po_slots := s\<rparr>) Woken"
| pool_timeout: "u \<le> now \<Longrightarrow>
    pool_move S now p (WaitingUntil u) (pool_leave p) (TurnedAway QueueDeadline)"
| pool_woken: "pool_move S now p Woken (pool_leave p) Holding"

inductive_cases pool_moveE: "pool_move S now p ph p' ph'"

section \<open>The coach pools\<close>

datatype principal = LocalCoach | Player string

record 's coach =
  co_web :: "'s pool"
  co_local :: "'s pool"
  co_tasks :: "(principal \<times> pool_phase) multiset"
  co_now :: nat

definition COACH_QUEUE_DEADLINE :: nat where "COACH_QUEUE_DEADLINE = 2000"

definition coach_v1 :: "'s semaphore_ops \<Rightarrow> 's coach" where
  "coach_v1 S =
     \<lparr>co_web = pool_new S 4 8 COACH_QUEUE_DEADLINE, co_local = pool_new S 1 1 COACH_QUEUE_DEADLINE,
      co_tasks = {#}, co_now = 0\<rparr>"

fun coach_pool :: "principal \<Rightarrow> 's coach \<Rightarrow> 's pool" where
  "coach_pool LocalCoach c = co_local c"
| "coach_pool (Player _) c = co_web c"

fun put_coach_pool :: "principal \<Rightarrow> 's pool \<Rightarrow> 's coach \<Rightarrow> 's coach" where
  "put_coach_pool LocalCoach p c = c\<lparr>co_local := p\<rparr>"
| "put_coach_pool (Player _) p c = c\<lparr>co_web := p\<rparr>"

inductive coach_step :: "'s semaphore_ops \<Rightarrow> 's coach \<Rightarrow> 's coach \<Rightarrow> bool" for S where
  coach_acquire:
    "coach_step S c (c\<lparr>co_tasks := add_mset (who, Arriving (co_now c + po_queue_deadline (coach_pool who c)))
       (co_tasks c)\<rparr>)"
| coach_move: "\<lbrakk> co_tasks c = add_mset (who, ph) M; pool_move S (co_now c) (coach_pool who c) ph p ph' \<rbrakk> \<Longrightarrow>
    coach_step S c (put_coach_pool who p (c\<lparr>co_tasks := add_mset (who, ph') M\<rparr>))"
| coach_cancel: "co_tasks c = add_mset (who, WaitingUntil u) M \<Longrightarrow>
    coach_step S c (put_coach_pool who (pool_leave (coach_pool who c)) (c\<lparr>co_tasks := M\<rparr>))"
| coach_refused: "co_tasks c = add_mset (who, TurnedAway r) M \<Longrightarrow> coach_step S c (c\<lparr>co_tasks := M\<rparr>)"
| coach_release: "co_tasks c = add_mset (who, Holding) M \<Longrightarrow>
    coach_step S c (put_coach_pool who
      ((coach_pool who c)\<lparr>po_slots := sem_release S (po_slots (coach_pool who c))\<rparr>) (c\<lparr>co_tasks := M\<rparr>))"
| coach_tick: "coach_step S c (c\<lparr>co_now := co_now c + d\<rparr>)"

section \<open>Engine admission\<close>

datatype workload = Interactive | Batch

record 's class_admission =
  cl_pool :: "'s pool"
  cl_active :: "string set"
  cl_queue_deadline :: nat

text \<open>A task of the engine: passed the ceiling, in the pool (its claim held), its lease counted, its
  permit given back but its claim still held, or an optional prefetch past the ceiling.\<close>

datatype engine_phase =
    Checked nat
  | InPool pool_phase
  | Leased
  | Released
  | PrefetchChecked

record task =
  tk_workload :: workload
  tk_player :: "string option"
  tk_phase :: engine_phase

record 's engine =
  en_interactive :: "'s class_admission"
  en_batch :: "'s class_admission"
  en_ceiling :: ceiling
  en_tasks :: "task multiset"
  en_now :: nat

definition ENGINE_QUEUE_DEADLINE :: nat where "ENGINE_QUEUE_DEADLINE = 30000"
definition INTERACTIVE_QUEUE_DEADLINE :: nat where "INTERACTIVE_QUEUE_DEADLINE = 5000"

definition class_new :: "'s semaphore_ops \<Rightarrow> nat \<Rightarrow> nat \<Rightarrow> nat \<Rightarrow> 's class_admission" where
  "class_new S slots max_waiting queue_deadline =
     \<lparr>cl_pool = pool_new S slots max_waiting queue_deadline, cl_active = {},
      cl_queue_deadline = queue_deadline\<rparr>"

definition engine_new ::
  "'s semaphore_ops \<Rightarrow> nat \<Rightarrow> nat \<Rightarrow> nat \<Rightarrow> nat \<Rightarrow> ceiling \<Rightarrow> 's engine" where
  "engine_new S slots max_waiting batch_deadline interactive_deadline c =
     \<lparr>en_interactive = class_new S slots max_waiting interactive_deadline,
      en_batch = class_new S slots max_waiting batch_deadline,
      en_ceiling = c, en_tasks = {#}, en_now = 0\<rparr>"

definition engine_v1 :: "'s semaphore_ops \<Rightarrow> nat option \<Rightarrow> 's engine" where
  "engine_v1 S limit =
     engine_new S 1 4 ENGINE_QUEUE_DEADLINE INTERACTIVE_QUEUE_DEADLINE
       (ceiling_new limit ENGINE_CEILING_WINDOW_MS)"

fun class_of :: "workload \<Rightarrow> 's engine \<Rightarrow> 's class_admission" where
  "class_of Interactive e = en_interactive e"
| "class_of Batch e = en_batch e"

fun put_class :: "workload \<Rightarrow> 's class_admission \<Rightarrow> 's engine \<Rightarrow> 's engine" where
  "put_class Interactive c e = e\<lparr>en_interactive := c\<rparr>"
| "put_class Batch c e = e\<lparr>en_batch := c\<rparr>"

fun principal_player :: "principal \<Rightarrow> string option" where
  "principal_player LocalCoach = None"
| "principal_player (Player i) = Some i"

fun claim_acquire :: "string option \<Rightarrow> string set \<Rightarrow> unavailable_reason + string set" where
  "claim_acquire None active = Inr active"
| "claim_acquire (Some i) active = (if i \<in> active then Inl AdmissionLimit else Inr (insert i active))"

fun claim_drop :: "string option \<Rightarrow> string set \<Rightarrow> string set" where
  "claim_drop None active = active"
| "claim_drop (Some i) active = active - {i}"

definition mk_task :: "workload \<Rightarrow> string option \<Rightarrow> engine_phase \<Rightarrow> task" where
  "mk_task w i ph = \<lparr>tk_workload = w, tk_player = i, tk_phase = ph\<rparr>"

definition put_pool :: "workload \<Rightarrow> 's pool \<Rightarrow> 's engine \<Rightarrow> 's engine" where
  "put_pool w p e = put_class w ((class_of w e)\<lparr>cl_pool := p\<rparr>) e"

definition put_active :: "workload \<Rightarrow> string set \<Rightarrow> 's engine \<Rightarrow> 's engine" where
  "put_active w a e = put_class w ((class_of w e)\<lparr>cl_active := a\<rparr>) e"

definition put_tasks :: "task multiset \<Rightarrow> 's engine \<Rightarrow> 's engine" where
  "put_tasks M e = e\<lparr>en_tasks := M\<rparr>"

inductive engine_step :: "'s semaphore_ops \<Rightarrow> 's engine \<Rightarrow> 's engine \<Rightarrow> bool" for S where
  engine_refused: "ceiling_check (en_now e) (en_ceiling e) = (c, Inl r) \<Longrightarrow>
    engine_step S e (e\<lparr>en_ceiling := c\<rparr>)"
| engine_checked: "ceiling_check (en_now e) (en_ceiling e) = (c, Inr ()) \<Longrightarrow>
    engine_step S e (put_tasks (add_mset (mk_task w (principal_player who) (Checked deadline)) (en_tasks e))
      (e\<lparr>en_ceiling := c\<rparr>))"
| engine_claimed: "\<lbrakk> en_tasks e = add_mset (mk_task w i (Checked deadline)) M;
      claim_acquire i (cl_active (class_of w e)) = Inr active \<rbrakk> \<Longrightarrow>
    engine_step S e (put_active w active (put_tasks (add_mset (mk_task w i (InPool (Arriving deadline))) M) e))"
| engine_claim_refused: "\<lbrakk> en_tasks e = add_mset (mk_task w i (Checked deadline)) M;
      claim_acquire i (cl_active (class_of w e)) = Inl r \<rbrakk> \<Longrightarrow>
    engine_step S e (put_tasks M e)"
| engine_pool: "\<lbrakk> en_tasks e = add_mset (mk_task w i (InPool ph)) M;
      pool_move S (en_now e) (cl_pool (class_of w e)) ph p ph' \<rbrakk> \<Longrightarrow>
    engine_step S e (put_pool w p (put_tasks (add_mset (mk_task w i (InPool ph')) M) e))"
| engine_cancel: "en_tasks e = add_mset (mk_task w i (InPool (WaitingUntil u))) M \<Longrightarrow>
    engine_step S e (put_active w (claim_drop i (cl_active (class_of w e)))
      (put_pool w (pool_leave (cl_pool (class_of w e))) (put_tasks M e)))"
| engine_turned_away: "en_tasks e = add_mset (mk_task w i (InPool (TurnedAway r))) M \<Longrightarrow>
    engine_step S e (put_active w (claim_drop i (cl_active (class_of w e))) (put_tasks M e))"
| engine_lease: "en_tasks e = add_mset (mk_task w i (InPool Holding)) M \<Longrightarrow>
    engine_step S e ((put_tasks (add_mset (mk_task w i Leased) M) e)
      \<lparr>en_ceiling := ceiling_record (en_now e) (en_ceiling e)\<rparr>)"
| engine_prefetch_checked: "ceiling_check (en_now e) (en_ceiling e) = (c, Inr ()) \<Longrightarrow>
    engine_step S e (put_tasks (add_mset (mk_task Batch None PrefetchChecked) (en_tasks e))
      (e\<lparr>en_ceiling := c\<rparr>))"
| engine_prefetch_busy: "\<lbrakk> en_tasks e = add_mset (mk_task Batch None PrefetchChecked) M;
      sem_try_acquire S (po_slots (cl_pool (en_batch e))) = None \<rbrakk> \<Longrightarrow>
    engine_step S e (put_tasks M e)"
| engine_prefetch_grab: "\<lbrakk> en_tasks e = add_mset (mk_task Batch None PrefetchChecked) M;
      sem_try_acquire S (po_slots (cl_pool (en_batch e))) = Some s \<rbrakk> \<Longrightarrow>
    engine_step S e (put_pool Batch ((cl_pool (en_batch e))\<lparr>po_slots := s\<rparr>)
      (put_tasks (add_mset (mk_task Batch None (InPool Holding)) M) e))"
| engine_release: "en_tasks e = add_mset (mk_task w i Leased) M \<Longrightarrow>
    engine_step S e (put_pool w
      ((cl_pool (class_of w e))\<lparr>po_slots := sem_release S (po_slots (cl_pool (class_of w e)))\<rparr>)
      (put_tasks (add_mset (mk_task w i Released) M) e))"
| engine_unclaim: "en_tasks e = add_mset (mk_task w i Released) M \<Longrightarrow>
    engine_step S e (put_active w (claim_drop i (cl_active (class_of w e))) (put_tasks M e))"
| engine_tick: "engine_step S e (e\<lparr>en_now := en_now e + d\<rparr>)"

end
