(* ===== verification/AdmissionSafety.thy ===== *)
theory AdmissionSafety
  imports Admission
begin

text \<open>
  Safety of admission over all interleavings: permits are conserved, the waiting counter counts the
  waiting tasks and stays within its bound, a player holds at most one claim per class, nothing
  leaks, and the deployment ceiling is overshot by less than the number of tasks in flight.
\<close>

section \<open>Counting\<close>

definition num :: "('a \<Rightarrow> bool) \<Rightarrow> 'a multiset \<Rightarrow> nat" where
  "num P M = size (filter_mset P M)"

lemma num_empty [simp]: "num P {#} = 0"
  by (simp add: num_def)

lemma num_add [simp]: "num P (add_mset x M) = (if P x then 1 else 0) + num P M"
  by (simp add: num_def)

lemma num_mono: "(\<And>x. P x \<Longrightarrow> Q x) \<Longrightarrow> num P M \<le> num Q M"
  by (induction M) auto

lemma num_pos: "x \<in># M \<Longrightarrow> P x \<Longrightarrow> 0 < num P M"
  by (auto simp: num_def dest: multi_member_split)

section \<open>The pool invariant\<close>

fun has_permit :: "pool_phase \<Rightarrow> bool" where
  "has_permit Woken = True"
| "has_permit Holding = True"
| "has_permit _ = False"

fun in_queue :: "pool_phase \<Rightarrow> bool" where
  "in_queue (Entered _ _) = True"
| "in_queue (WaitingUntil _) = True"
| "in_queue Woken = True"
| "in_queue _ = False"

fun accepted :: "nat \<Rightarrow> pool_phase \<Rightarrow> bool" where
  "accepted mx (Entered _ n) = (n < mx)"
| "accepted mx (WaitingUntil _) = True"
| "accepted mx Woken = True"
| "accepted mx _ = False"

definition pool_inv :: "'s semaphore_ops \<Rightarrow> nat \<Rightarrow> nat \<Rightarrow> 's pool \<Rightarrow> pool_phase multiset \<Rightarrow> bool" where
  "pool_inv S n now p M \<longleftrightarrow>
     sem_available S (po_slots p) + num has_permit M = n \<and>
     po_waiting p = num in_queue M \<and>
     num (accepted (po_max_waiting p)) M \<le> po_max_waiting p \<and>
     (\<forall>u. WaitingUntil u \<in># M \<longrightarrow> u \<le> now + po_queue_deadline p)"

lemma accepted_in_queue: "num (accepted mx) M \<le> num in_queue M"
  by (rule num_mono) (auto elim: accepted.elims)

lemma pool_inv_outside:
  assumes "\<not> has_permit ph" and "\<not> in_queue ph"
  shows "pool_inv S n now p (add_mset ph M) \<longleftrightarrow> pool_inv S n now p M"
  using assms by (cases ph) (auto simp: pool_inv_def)

lemma pool_inv_later: "pool_inv S n now p M \<Longrightarrow> now \<le> now' \<Longrightarrow> pool_inv S n now' p M"
  by (fastforce simp: pool_inv_def)

lemma pool_leave_sel [simp]:
  "po_max_waiting (pool_leave p) = po_max_waiting p" "po_slots (pool_leave p) = po_slots p"
  by (simp_all add: pool_leave_def)

context semaphore
begin

lemma pool_new_inv: "pool_inv S n now (pool_new S n m d) {#}"
  by (simp add: pool_inv_def pool_new_def available_new)

lemma pool_move_inv:
  assumes inv: "pool_inv S n now p (add_mset ph M)" and move: "pool_move S now p ph p' ph'"
  shows "pool_inv S n now p' (add_mset ph' M) \<and> po_max_waiting p' = po_max_waiting p \<and>
    po_queue_deadline p' = po_queue_deadline p"
  using move
proof cases
  case (pool_grab s deadline)
  then show ?thesis using inv try_acquire_Some [OF pool_grab(4)] by (auto simp: pool_inv_def)
next
  case (pool_enter deadline)
  have "po_waiting p < po_max_waiting p \<Longrightarrow> num (accepted (po_max_waiting p)) M < po_max_waiting p"
    using accepted_in_queue [of "po_max_waiting p" M] inv pool_enter by (simp add: pool_inv_def)
  then show ?thesis using inv pool_enter by (auto simp: pool_inv_def)
next
  case (pool_full waiting deadline)
  then show ?thesis using inv by (auto simp: pool_inv_def pool_leave_def)
next
  case (pool_wait waiting deadline)
  then show ?thesis using inv by (auto simp: pool_inv_def wait_until_def)
next
  case (pool_wake s u)
  then show ?thesis using inv try_acquire_Some [OF pool_wake(4)] by (auto simp: pool_inv_def)
next
  case (pool_timeout u)
  then show ?thesis using inv by (auto simp: pool_inv_def pool_leave_def)
next
  case pool_woken
  then show ?thesis using inv by (auto simp: pool_inv_def pool_leave_def)
qed

lemma pool_cancel_inv:
  "pool_inv S n now p (add_mset (WaitingUntil u) M) \<Longrightarrow> pool_inv S n now (pool_leave p) M"
  by (auto simp: pool_inv_def pool_leave_def)

lemma pool_release_inv:
  "pool_inv S n now p (add_mset Holding M) \<Longrightarrow>
   pool_inv S n now (p\<lparr>po_slots := sem_release S (po_slots p)\<rparr>) M"
  by (auto simp: pool_inv_def available_release)

lemma pool_take_inv:
  "pool_inv S n now p M \<Longrightarrow> sem_try_acquire S (po_slots p) = Some s \<Longrightarrow>
   pool_inv S n now (p\<lparr>po_slots := s\<rparr>) (add_mset Holding M)"
  using try_acquire_Some [of "po_slots p" s] by (auto simp: pool_inv_def)

end

section \<open>The coach pools\<close>

definition coach_view :: "bool \<Rightarrow> (principal \<times> pool_phase) multiset \<Rightarrow> pool_phase multiset" where
  "coach_view is_local M = image_mset snd (filter_mset (\<lambda>t. (fst t = LocalCoach) = is_local) M)"

lemma coach_view_add:
  "coach_view b (add_mset (who, ph) M) =
     (if (who = LocalCoach) = b then add_mset ph (coach_view b M) else coach_view b M)"
  by (simp add: coach_view_def)

definition coach_inv :: "'s semaphore_ops \<Rightarrow> 's coach \<Rightarrow> bool" where
  "coach_inv S c \<longleftrightarrow>
     pool_inv S 4 (co_now c) (co_web c) (coach_view False (co_tasks c)) \<and> po_max_waiting (co_web c) = 8 \<and>
     pool_inv S 1 (co_now c) (co_local c) (coach_view True (co_tasks c)) \<and> po_max_waiting (co_local c) = 1"

inductive coach_reach :: "'s semaphore_ops \<Rightarrow> 's coach \<Rightarrow> bool" for S where
  coach_start: "coach_reach S (coach_v1 S)"
| coach_next: "coach_reach S c \<Longrightarrow> coach_step S c c' \<Longrightarrow> coach_reach S c'"

context semaphore
begin

lemma coach_step_inv:
  assumes "coach_inv S c" and "coach_step S c c'"
  shows "coach_inv S c'"
  using assms(2)
proof cases
  case (coach_acquire who)
  then show ?thesis using assms(1)
    by (cases who) (simp_all add: coach_inv_def coach_view_add pool_inv_outside)
next
  case (coach_move who ph M p ph')
  then show ?thesis using assms(1) pool_move_inv [OF _ coach_move(3)]
    by (cases who) (auto simp: coach_inv_def coach_view_add)
next
  case (coach_cancel who u M)
  then show ?thesis using assms(1)
    by (cases who) (auto simp: coach_inv_def coach_view_add pool_cancel_inv)
next
  case (coach_refused who r M)
  then show ?thesis using assms(1)
    by (cases who) (simp_all add: coach_inv_def coach_view_add pool_inv_outside)
next
  case (coach_release who M)
  then show ?thesis using assms(1)
    by (cases who) (auto simp: coach_inv_def coach_view_add pool_release_inv)
next
  case (coach_tick d)
  then show ?thesis using assms(1) pool_inv_later by (fastforce simp: coach_inv_def)
qed

lemma coach_reach_inv: "coach_reach S c \<Longrightarrow> coach_inv S c"
proof (induction rule: coach_reach.induct)
  case coach_start
  show ?case using pool_new_inv by (simp add: coach_inv_def coach_v1_def coach_view_def) (simp add: pool_new_def)
qed (rule coach_step_inv)

end

section \<open>The engine classes\<close>

fun pool_view :: "engine_phase \<Rightarrow> pool_phase" where
  "pool_view (InPool ph) = ph"
| "pool_view Leased = Holding"
| "pool_view _ = TurnedAway AdmissionLimit"

fun claims :: "engine_phase \<Rightarrow> bool" where
  "claims (InPool _) = True"
| "claims Leased = True"
| "claims Released = True"
| "claims _ = False"

fun in_flight :: "engine_phase \<Rightarrow> bool" where
  "in_flight (Checked _) = True"
| "in_flight PrefetchChecked = True"
| "in_flight (InPool _) = True"
| "in_flight _ = False"

definition class_view :: "workload \<Rightarrow> task multiset \<Rightarrow> pool_phase multiset" where
  "class_view w M = image_mset (\<lambda>t. pool_view (tk_phase t)) (filter_mset (\<lambda>t. tk_workload t = w) M)"

definition claimed :: "workload \<Rightarrow> string \<Rightarrow> task \<Rightarrow> bool" where
  "claimed w i t \<longleftrightarrow> tk_workload t = w \<and> tk_player t = Some i \<and> claims (tk_phase t)"

lemma class_view_add:
  "class_view w (add_mset (mk_task w' i ph) M) =
     (if w' = w then add_mset (pool_view ph) (class_view w M) else class_view w M)"
  by (simp add: class_view_def mk_task_def)

lemma mk_task_sel [simp]:
  "tk_workload (mk_task w i ph) = w" "tk_player (mk_task w i ph) = i" "tk_phase (mk_task w i ph) = ph"
  by (simp_all add: mk_task_def)

lemma claimed_mk: "claimed w i (mk_task w' j ph) \<longleftrightarrow> w' = w \<and> j = Some i \<and> claims ph"
  by (simp add: claimed_def mk_task_def)

lemma class_put_class: "class_of w (put_class w' c e) = (if w' = w then c else class_of w e)"
  by (cases w; cases w') simp_all

lemma class_put_tasks [simp]: "class_of w (put_tasks M e) = class_of w e"
  by (cases w) (simp_all add: put_tasks_def)

lemma class_put_ceiling [simp]: "class_of w (e\<lparr>en_ceiling := c\<rparr>) = class_of w e"
  by (cases w) simp_all

lemma class_put_now [simp]: "class_of w (e\<lparr>en_now := t\<rparr>) = class_of w e"
  by (cases w) simp_all

lemma put_class_rest [simp]:
  "en_tasks (put_class w c e) = en_tasks e" "en_ceiling (put_class w c e) = en_ceiling e"
  "en_now (put_class w c e) = en_now e"
  by (cases w; simp)+

lemma put_rest [simp]:
  "en_tasks (put_pool w p e) = en_tasks e" "en_ceiling (put_pool w p e) = en_ceiling e"
  "en_now (put_pool w p e) = en_now e" "en_tasks (put_active w a e) = en_tasks e"
  "en_ceiling (put_active w a e) = en_ceiling e" "en_now (put_active w a e) = en_now e"
  "en_tasks (put_tasks M e) = M" "en_ceiling (put_tasks M e) = en_ceiling e"
  "en_now (put_tasks M e) = en_now e"
  by (simp_all add: put_pool_def put_active_def put_tasks_def)

lemma pool_put [simp]:
  "cl_pool (class_of w (put_pool w' p e)) = (if w' = w then p else cl_pool (class_of w e))"
  "cl_active (class_of w (put_pool w' p e)) = cl_active (class_of w e)"
  "cl_pool (class_of w (put_active w' a e)) = cl_pool (class_of w e)"
  "cl_active (class_of w (put_active w' a e)) = (if w' = w then a else cl_active (class_of w e))"
  by (simp_all add: put_pool_def put_active_def class_put_class)

lemma class_Batch: "en_batch e = class_of Batch e"
  by simp

definition class_inv :: "'s semaphore_ops \<Rightarrow> nat \<Rightarrow> nat \<Rightarrow> 's engine \<Rightarrow> workload \<Rightarrow> bool" where
  "class_inv S n m e w \<longleftrightarrow>
     pool_inv S n (en_now e) (cl_pool (class_of w e)) (class_view w (en_tasks e)) \<and>
     po_max_waiting (cl_pool (class_of w e)) = m \<and>
     (\<forall>i. num (claimed w i) (en_tasks e) = (if i \<in> cl_active (class_of w e) then 1 else 0))"

lemma claim_acquire_Inr:
  "claim_acquire j active = Inr active' \<Longrightarrow>
   (i \<in> active') = (i \<in> active \<or> j = Some i) \<and> (j = Some i \<longrightarrow> i \<notin> active)"
  by (cases j) (auto split: if_splits)

lemma claim_drop_iff: "i \<in> claim_drop j active \<longleftrightarrow> i \<in> active \<and> j \<noteq> Some i"
  by (cases j) auto

context semaphore
begin

lemma class_inv_checked:
  assumes "class_inv S n m e w"
  shows "class_inv S n m (e\<lparr>en_ceiling := c\<rparr>) w"
    and "\<not> claims ph \<Longrightarrow> pool_view ph = TurnedAway AdmissionLimit \<Longrightarrow>
      class_inv S n m (put_tasks (add_mset (mk_task w' j ph) (en_tasks e)) (e\<lparr>en_ceiling := c\<rparr>)) w"
  using assms by (simp_all add: class_inv_def class_view_add pool_inv_outside claimed_mk)

text \<open>Dropping a claim removes the last task that holds it.\<close>

lemma unclaim:
  assumes "\<forall>i. num (claimed w i) (add_mset (mk_task w' j ph) M) = (if i \<in> active w then 1 else 0)"
    and "claims ph"
  shows "\<forall>i. num (claimed w i) M = (if i \<in> (if w' = w then claim_drop j (active w) else active w) then 1 else 0)"
proof
  fix i
  show "num (claimed w i) M = (if i \<in> (if w' = w then claim_drop j (active w) else active w) then 1 else 0)"
    using assms(1) [rule_format, of i] assms(2)
    by (cases "w' = w"; cases "j = Some i") (simp_all add: claimed_mk claim_drop_iff split: if_splits)
qed

lemma engine_step_class_inv:
  assumes inv: "class_inv S n m e w" and step: "engine_step S e e'"
  shows "class_inv S n m e' w"
  using step
proof cases
  case (engine_claimed w' j deadline M active)
  then show ?thesis
    using inv claim_acquire_Inr [OF engine_claimed(3)]
    by (auto simp: class_inv_def class_view_add pool_inv_outside claimed_mk split: if_splits)
next
  case (engine_claim_refused w' j deadline M r)
  then show ?thesis
    using inv by (auto simp: class_inv_def class_view_add pool_inv_outside claimed_mk split: if_splits)
next
  case (engine_pool w' j ph M p ph')
  show ?thesis
  proof (cases "w' = w")
    case True
    then show ?thesis using inv engine_pool pool_move_inv [OF _ engine_pool(3), of n "class_view w M"]
      by (simp add: class_inv_def class_view_add claimed_mk)
  next
    case False
    then show ?thesis using inv engine_pool by (simp add: class_inv_def class_view_add claimed_mk)
  qed
next
  case (engine_cancel w' j u M)
  have "pool_inv S n (en_now e) (cl_pool (class_of w e)) (class_view w (en_tasks e))"
    "\<forall>i. num (claimed w i) (add_mset (mk_task w' j (InPool (WaitingUntil u))) M) =
      (if i \<in> cl_active (class_of w e) then 1 else 0)"
    using inv engine_cancel by (simp_all add: class_inv_def)
  note i = this
  have pc: "pool_inv S n (en_now e) (pool_leave (cl_pool (class_of w e))) (class_view w M)" if "w' = w"
    by (rule pool_cancel_inv [of _ _ _ u]) (use that i(1) engine_cancel in \<open>simp add: class_view_add\<close>)
  show ?thesis
    using inv engine_cancel unclaim [where active = "\<lambda>w. cl_active (class_of w e)", OF i(2)] pc
    by (cases "w' = w") (simp_all add: class_inv_def class_view_add pool_inv_outside)
next
  case (engine_turned_away w' j r M)
  have "\<forall>i. num (claimed w i) (add_mset (mk_task w' j (InPool (TurnedAway r))) M) =
      (if i \<in> cl_active (class_of w e) then 1 else 0)"
    using inv engine_turned_away by (simp add: class_inv_def)
  note i = this
  show ?thesis
    using inv engine_turned_away unclaim [where active = "\<lambda>w. cl_active (class_of w e)", OF i]
    by (cases "w' = w") (simp_all add: class_inv_def class_view_add pool_inv_outside)
next
  case (engine_unclaim w' j M)
  have "\<forall>i. num (claimed w i) (add_mset (mk_task w' j Released) M) =
      (if i \<in> cl_active (class_of w e) then 1 else 0)"
    using inv engine_unclaim by (simp add: class_inv_def)
  note i = this
  show ?thesis
    using inv engine_unclaim unclaim [where active = "\<lambda>w. cl_active (class_of w e)", OF i]
    by (cases "w' = w") (simp_all add: class_inv_def class_view_add pool_inv_outside)
next
  case (engine_lease w' j M)
  then show ?thesis using inv
    by (cases "w' = w") (simp_all add: class_inv_def class_view_add claimed_mk)
next
  case (engine_prefetch_busy M)
  then show ?thesis using inv
    by (cases "Batch = w") (simp_all add: class_inv_def class_view_add claimed_mk pool_inv_outside)
next
  case (engine_prefetch_grab M s)
  then show ?thesis using inv pool_take_inv [of n "en_now e" "cl_pool (class_of Batch e)" "class_view Batch M" s]
    unfolding class_Batch
    by (cases "w = Batch")
      (simp_all add: class_inv_def class_view_add claimed_mk pool_inv_outside del: class_of.simps)
next
  case (engine_release w' j M)
  then show ?thesis using inv pool_release_inv
    by (auto simp: class_inv_def class_view_add claimed_mk pool_inv_outside)
next
  case (engine_tick d)
  then show ?thesis using inv pool_inv_later by (fastforce simp: class_inv_def)
qed (use class_inv_checked [OF inv] in simp_all)

lemma engine_new_inv: "class_inv S n m (engine_new S n m b i c) w"
  using pool_new_inv
  by (cases w) (simp_all add: class_inv_def engine_new_def class_new_def class_view_def pool_new_def)

end

section \<open>The ceiling under concurrency\<close>

definition flight :: "'s engine \<Rightarrow> nat" where
  "flight e = num (\<lambda>t. in_flight (tk_phase t)) (en_tasks e)"

text \<open>Runs in which at most \<open>K\<close> acquisitions are in flight at a time.\<close>

inductive engine_reach :: "'s semaphore_ops \<Rightarrow> nat \<Rightarrow> 's engine \<Rightarrow> 's engine \<Rightarrow> bool" for S K e0 where
  engine_start: "engine_reach S K e0 e0"
| engine_next: "\<lbrakk> engine_reach S K e0 e; engine_step S e e'; flight e' \<le> K \<rbrakk> \<Longrightarrow> engine_reach S K e0 e'"

definition ceiling_inv :: "nat \<Rightarrow> nat \<Rightarrow> 's engine \<Rightarrow> bool" where
  "ceiling_inv L K e \<longleftrightarrow> ce_limit (en_ceiling e) = Some L \<and>
     length (ce_admitted (en_ceiling e)) + flight e \<le> L + K - 1"

lemma ceiling_check_limit:
  assumes "ceiling_check now c = (c', r)"
  shows "ce_limit c' = ce_limit c" and "length (ce_admitted c') \<le> length (ce_admitted c)"
    and "r = Inr () \<Longrightarrow> ce_limit c = Some L \<Longrightarrow> length (ce_admitted c') < L"
  using assms length_expire_window [of "ce_admitted c" now "ce_window_ms c"]
  by (auto simp: ceiling_check_def Let_def split: option.splits if_splits)

lemma engine_step_ceiling:
  assumes inv: "ceiling_inv L K e" and step: "engine_step S e e'" and K: "flight e' \<le> K"
  shows "ceiling_inv L K e'"
  using step
proof cases
  case (engine_refused c r)
  then show ?thesis using inv ceiling_check_limit(1,2) [OF engine_refused(2)]
    by (simp add: ceiling_inv_def flight_def)
next
  case (engine_checked c w who deadline)
  then show ?thesis using inv K ceiling_check_limit [OF engine_checked(2)]
    by (fastforce simp: ceiling_inv_def)
next
  case (engine_prefetch_checked c)
  then show ?thesis using inv K ceiling_check_limit [OF engine_prefetch_checked(2)]
    by (fastforce simp: ceiling_inv_def)
next
  case (engine_lease w j M)
  then show ?thesis
    using inv length_expire_window [of "ce_admitted (en_ceiling e)" "en_now e" "ce_window_ms (en_ceiling e)"]
    by (simp add: ceiling_inv_def flight_def ceiling_record_def)
qed (use inv in \<open>simp_all add: ceiling_inv_def flight_def\<close>)

section \<open>Properties\<close>

lemma num_class_view:
  "num P (class_view w M) = num (\<lambda>t. tk_workload t = w \<and> P (pool_view (tk_phase t))) M"
  by (induction M) (simp_all add: class_view_def)

context semaphore
begin

lemma engine_reach_class_inv: "engine_reach S K (engine_new S n m b i c) e \<Longrightarrow> class_inv S n m e w"
  by (induction rule: engine_reach.induct) (auto intro: engine_new_inv engine_step_class_inv)

lemma engine_reach_safe:
  assumes "engine_reach S K (engine_new S n m b i c) e"
  shows "num (\<lambda>t. tk_workload t = w \<and> tk_phase t = Leased) (en_tasks e) \<le> n"
    and "num (\<lambda>t. tk_workload t = w \<and> (\<exists>u. tk_phase t = InPool (WaitingUntil u))) (en_tasks e) \<le> m"
    and "num (claimed w j) (en_tasks e) \<le> 1"
    and "en_tasks e = {#} \<Longrightarrow> sem_available S (po_slots (cl_pool (class_of w e))) = n \<and>
           po_waiting (cl_pool (class_of w e)) = 0 \<and> cl_active (class_of w e) = {}"
proof -
  have inv: "class_inv S n m e w" using engine_reach_class_inv [OF assms] .
  then have p: "num has_permit (class_view w (en_tasks e)) \<le> n"
    "num (accepted m) (class_view w (en_tasks e)) \<le> m"
    by (auto simp: class_inv_def pool_inv_def)
  show "num (\<lambda>t. tk_workload t = w \<and> tk_phase t = Leased) (en_tasks e) \<le> n"
    using p(1) unfolding num_class_view by (rule order.trans [OF num_mono, rotated]) auto
  show "num (\<lambda>t. tk_workload t = w \<and> (\<exists>u. tk_phase t = InPool (WaitingUntil u))) (en_tasks e) \<le> m"
    using p(2) unfolding num_class_view by (rule order.trans [OF num_mono, rotated]) auto
  show "num (claimed w j) (en_tasks e) \<le> 1" using inv by (simp add: class_inv_def)
  assume "en_tasks e = {#}"
  then show "sem_available S (po_slots (cl_pool (class_of w e))) = n \<and>
      po_waiting (cl_pool (class_of w e)) = 0 \<and> cl_active (class_of w e) = {}"
    using inv by (auto simp: class_inv_def pool_inv_def class_view_def split: if_splits)
qed

lemma coach_reach_safe:
  assumes "coach_reach S c"
  shows "num (\<lambda>t. fst t \<noteq> LocalCoach \<and> snd t = Holding) (co_tasks c) \<le> 4"
    and "num (\<lambda>t. fst t = LocalCoach \<and> snd t = Holding) (co_tasks c) \<le> 1"
proof -
  have view: "num P (coach_view b M) = num (\<lambda>t. (fst t = LocalCoach) = b \<and> P (snd t)) M" for P b M
    by (induction M) (auto simp: coach_view_def)
  have "num has_permit (coach_view False (co_tasks c)) \<le> 4" "num has_permit (coach_view True (co_tasks c)) \<le> 1"
    using coach_reach_inv [OF assms] by (auto simp: coach_inv_def pool_inv_def)
  note v = this [unfolded view]
  show "num (\<lambda>t. fst t \<noteq> LocalCoach \<and> snd t = Holding) (co_tasks c) \<le> 4"
    using v(1) by (rule order.trans [OF num_mono, rotated]) auto
  show "num (\<lambda>t. fst t = LocalCoach \<and> snd t = Holding) (co_tasks c) \<le> 1"
    using v(2) by (rule order.trans [OF num_mono, rotated]) auto
qed

end

text \<open>C2: in every reachable state of engine admission with \<open>n\<close> slots and \<open>m\<close> waiting places per
  class, each class has at most \<open>n\<close> leases and \<open>m\<close> waiting acquisitions, and a player holds at most
  one claim per class, whatever the interleaving of acquisitions, timeouts, cancellations and
  releases.\<close>

theorem engine_admission_safe:
  assumes "semaphore S" and "engine_reach S K (engine_new S n m b i c) e"
  shows "num (\<lambda>t. tk_workload t = w \<and> tk_phase t = Leased) (en_tasks e) \<le> n \<and>
    num (\<lambda>t. tk_workload t = w \<and> (\<exists>u. tk_phase t = InPool (WaitingUntil u))) (en_tasks e) \<le> m \<and>
    num (\<lambda>t. tk_workload t = w \<and> tk_player t = Some j \<and> claims (tk_phase t)) (en_tasks e) \<le> 1"
  using semaphore.engine_reach_safe [OF assms] by (simp add: claimed_def [abs_def])

text \<open>C14: nothing leaks: once every acquisition and lease has ended, by any path, all permits are
  back, the waiting counter is zero and no player is claimed.\<close>

theorem engine_admission_no_leak:
  assumes "semaphore S" and "engine_reach S K (engine_new S n m b i c) e" and "en_tasks e = {#}"
  shows "sem_available S (po_slots (cl_pool (class_of w e))) = n \<and>
    po_waiting (cl_pool (class_of w e)) = 0 \<and> cl_active (class_of w e) = {}"
  using semaphore.engine_reach_safe(4) [OF assms] .

text \<open>C15: the deployment ceiling counts at most \<open>L + K - 1\<close> leases in its window when at most \<open>K\<close>
  acquisitions are in flight: the check and the count are separate steps.\<close>

theorem ceiling_overshoot_bounded:
  assumes "engine_reach S K (engine_new S n m b i (ceiling_new (Some L) win)) e"
  shows "length (ce_admitted (en_ceiling e)) \<le> L + K - 1"
proof -
  have "ceiling_inv L K e"
    using assms
  proof induction
    case engine_start
    show ?case by (simp add: ceiling_inv_def engine_new_def ceiling_new_def flight_def)
  qed (rule engine_step_ceiling)
  then show ?thesis by (simp add: ceiling_inv_def)
qed

text \<open>a coach call holds at most four web permits and one local permit at a time.\<close>

theorem coach_capacity:
  assumes "semaphore S" and "coach_reach S c"
  shows "num (\<lambda>t. fst t \<noteq> LocalCoach \<and> snd t = Holding) (co_tasks c) \<le> 4 \<and>
    num (\<lambda>t. fst t = LocalCoach \<and> snd t = Holding) (co_tasks c) \<le> 1"
  using semaphore.coach_reach_safe [OF assms] by blast

section \<open>A concrete run\<close>

text \<open>Two players, one per class, under a ceiling of one lease per window: both pass the check
  before either lease is counted.\<close>

definition run1 :: "nat engine" where
  "run1 = engine_v1 counting_semaphore (Some 1)"

definition leased_state :: "nat \<Rightarrow> nat \<Rightarrow> string set \<Rightarrow> string set \<Rightarrow> nat list \<Rightarrow> task multiset \<Rightarrow> nat engine" where
  "leased_state a b x y ws M =
     \<lparr>en_interactive = \<lparr>cl_pool = \<lparr>po_slots = a, po_waiting = 0, po_max_waiting = 4,
          po_queue_deadline = 5000\<rparr>, cl_active = x, cl_queue_deadline = 5000\<rparr>,
      en_batch = \<lparr>cl_pool = \<lparr>po_slots = b, po_waiting = 0, po_max_waiting = 4,
          po_queue_deadline = 30000\<rparr>, cl_active = y, cl_queue_deadline = 30000\<rparr>,
      en_ceiling = \<lparr>ce_limit = Some 1, ce_window_ms = 60000, ce_admitted = ws\<rparr>,
      en_tasks = M, en_now = 0\<rparr>"

lemma run1_state: "run1 = leased_state 1 1 {} {} [] {#}"
  by (simp add: run1_def engine_v1_def engine_new_def class_new_def pool_new_def leased_state_def
      ceiling_new_def counting_semaphore_def ENGINE_QUEUE_DEADLINE_def INTERACTIVE_QUEUE_DEADLINE_def
      ENGINE_CEILING_WINDOW_MS_def)

abbreviation task_a :: "engine_phase \<Rightarrow> task" where "task_a \<equiv> mk_task Interactive (Some ''a'')"
abbreviation task_b :: "engine_phase \<Rightarrow> task" where "task_b \<equiv> mk_task Batch (Some ''b'')"

lemma leased_check: "ceiling_check 0 \<lparr>ce_limit = Some 1, ce_window_ms = 60000, ce_admitted = []\<rparr> =
    (\<lparr>ce_limit = Some 1, ce_window_ms = 60000, ce_admitted = []\<rparr>, Inr ())"
  by (simp add: ceiling_check_def)

lemmas leased_check' = leased_check [unfolded One_nat_def]

lemma reach_step:
  "engine_reach S K e0 e \<Longrightarrow> engine_step S e e' \<Longrightarrow> e' = e'' \<Longrightarrow> flight e'' \<le> K \<Longrightarrow> engine_reach S K e0 e''"
  by (metis engine_next)

lemmas run_simps = leased_state_def sat_sub_def put_tasks_def put_pool_def put_active_def counting_semaphore_def
  flight_def ceiling_record_def

lemma run1_checked:
  "engine_reach counting_semaphore 2 run1
     (leased_state 1 1 {} {} [] {# task_b (Checked 30000), task_a (Checked 5000) #})"
proof -
  have r1: "engine_reach counting_semaphore 2 run1 (leased_state 1 1 {} {} [] {# task_a (Checked 5000) #})"
    by (rule reach_step [OF engine_start engine_checked [where who = "Player ''a''" and w = Interactive and deadline = 5000]])
      (simp_all add: run1_state leased_check' run_simps)
  show ?thesis
    by (rule reach_step [OF r1 engine_checked [where who = "Player ''b''" and w = Batch and deadline = 30000]])
      (simp_all add: leased_check' run_simps)
qed

lemma run1_first:
  "engine_reach counting_semaphore 2 run1
     (leased_state 0 1 {''a''} {} [0] {# task_a Leased, task_b (Checked 30000) #})"
proof -
  have r3: "engine_reach counting_semaphore 2 run1
      (leased_state 1 1 {''a''} {} [] {# task_a (InPool (Arriving 5000)), task_b (Checked 30000) #})"
    by (rule reach_step [OF run1_checked engine_claimed [where w = Interactive and i = "Some ''a''"
            and deadline = 5000 and M = "{# task_b (Checked 30000) #}" and active = "{''a''}"]])
      (simp_all add: run_simps)
  have r4: "engine_reach counting_semaphore 2 run1
      (leased_state 0 1 {''a''} {} [] {# task_a (InPool Holding), task_b (Checked 30000) #})"
    by (rule reach_step [OF r3 engine_pool [where w = Interactive and i = "Some ''a''" and ph = "Arriving 5000"
            and M = "{# task_b (Checked 30000) #}", OF _ pool_grab [where s = 0]]])
      (simp_all add: run_simps)
  show ?thesis
    by (rule reach_step [OF r4 engine_lease [where w = Interactive and i = "Some ''a''"
            and M = "{# task_b (Checked 30000) #}"]])
      (simp_all add: run_simps)
qed

lemma run1_second:
  "engine_reach counting_semaphore 2 run1
     (leased_state 0 0 {''a''} {''b''} [0, 0] {# task_b Leased, task_a Leased #})"
proof -
  have r6: "engine_reach counting_semaphore 2 run1
      (leased_state 0 1 {''a''} {''b''} [0] {# task_b (InPool (Arriving 30000)), task_a Leased #})"
    by (rule reach_step [OF run1_first engine_claimed [where w = Batch and i = "Some ''b''"
            and deadline = 30000 and M = "{# task_a Leased #}" and active = "{''b''}"]])
      (simp_all add: run_simps)
  have r7: "engine_reach counting_semaphore 2 run1
      (leased_state 0 0 {''a''} {''b''} [0] {# task_b (InPool Holding), task_a Leased #})"
    by (rule reach_step [OF r6 engine_pool [where w = Batch and i = "Some ''b''" and ph = "Arriving 30000"
            and M = "{# task_a Leased #}", OF _ pool_grab [where s = 0]]])
      (simp_all add: run_simps)
  show ?thesis
    by (rule reach_step [OF r7 engine_lease [where w = Batch and i = "Some ''b''" and M = "{# task_a Leased #}"]])
      (simp_all add: run_simps)
qed

text \<open>C16: the bound on the overshoot of the ceiling is attained: under a ceiling of one lease per window, two acquisitions in
  flight are both admitted.\<close>

theorem ceiling_overshoot_happens:
  "\<exists>e. engine_reach counting_semaphore 2 (engine_v1 counting_semaphore (Some 1)) e \<and>
     ce_limit (en_ceiling e) = Some 1 \<and> length (ce_admitted (en_ceiling e)) = 2 \<and>
     num (\<lambda>t. tk_phase t = Leased) (en_tasks e) = 2"
  using run1_second unfolding run1_def
  by (intro exI [of _ "leased_state 0 0 {''a''} {''b''} [0, 0] {# task_b Leased, task_a Leased #}"])
    (simp add: leased_state_def)

lemma run1_new: "run1 = engine_new counting_semaphore 1 4 30000 5000 (ceiling_new (Some 1) 60000)"
  by (simp add: run1_def engine_v1_def ENGINE_QUEUE_DEADLINE_def INTERACTIVE_QUEUE_DEADLINE_def
      ENGINE_CEILING_WINDOW_MS_def)

theorem engine_admission_safe_witness:
  "num (\<lambda>t. tk_workload t = Batch \<and> tk_phase t = Leased) {# task_b Leased, task_a Leased #} \<le> 1"
  using engine_admission_safe [OF counting.semaphore_axioms run1_second [unfolded run1_new], of Batch]
  by (simp add: leased_state_def)

text \<open>Both leases end: the permits are given back and then the claims.\<close>

lemma run1_ended: "engine_reach counting_semaphore 2 run1 (leased_state 1 1 {} {} [0, 0] {#})"
proof -
  have r1: "engine_reach counting_semaphore 2 run1
      (leased_state 1 0 {''a''} {''b''} [0, 0] {# task_a Released, task_b Leased #})"
    by (rule reach_step [OF run1_second engine_release [where w = Interactive and i = "Some ''a''" and M = "{# task_b Leased #}"]])
      (simp_all add: run_simps)
  have r2: "engine_reach counting_semaphore 2 run1
      (leased_state 1 1 {''a''} {''b''} [0, 0] {# task_b Released, task_a Released #})"
    by (rule reach_step [OF r1 engine_release [where w = Batch and i = "Some ''b''" and M = "{# task_a Released #}"]])
      (simp_all add: run_simps)
  have r3: "engine_reach counting_semaphore 2 run1 (leased_state 1 1 {} {''b''} [0, 0] {# task_b Released #})"
    by (rule reach_step [OF r2 engine_unclaim [where w = Interactive and i = "Some ''a''" and M = "{# task_b Released #}"]])
      (simp_all add: run_simps)
  show ?thesis
    by (rule reach_step [OF r3 engine_unclaim [where w = Batch and i = "Some ''b''" and M = "{#}"]])
      (simp_all add: run_simps)
qed

theorem engine_admission_no_leak_witness:
  "engine_reach counting_semaphore 2 run1 (leased_state 0 0 {''a''} {''b''} [0, 0] {# task_b Leased, task_a Leased #}) \<and>
   engine_reach counting_semaphore 2 run1 (leased_state 1 1 {} {} [0, 0] {#}) \<and>
   sem_available counting_semaphore (po_slots (cl_pool (class_of Batch (leased_state 1 1 {} {} [0, 0] {#})))) = 1"
  using engine_admission_no_leak [OF counting.semaphore_axioms run1_ended [unfolded run1_new], of Batch] run1_second run1_ended
  by (simp add: leased_state_def)

theorem ceiling_overshoot_bounded_witness:
  "length (ce_admitted (en_ceiling (leased_state 0 0 {''a''} {''b''} [0, 0] {# task_b Leased, task_a Leased #}))) \<le> 1 + 2 - 1"
  by (rule ceiling_overshoot_bounded [OF run1_second [unfolded run1_new]])

theorem coach_capacity_witness:
  "num (\<lambda>t. fst t \<noteq> LocalCoach \<and> snd t = Holding) (co_tasks (coach_v1 counting_semaphore)) \<le> 4"
  using coach_capacity [OF counting.semaphore_axioms coach_start] by blast

end
