(* ===== verification/BetaText.thy ===== *)
theory BetaText
  imports Domain
begin

text \<open>
  Text and byte encodings of Beta Access (\<open>beta_access.rs\<close>, \<open>beta_access/invitation.rs\<close>): normalized
  email addresses, opaque hexadecimal identifiers, invitation codes, hexadecimal encoding, and the
  length-prefixed fields of the authenticated context. Input text is a list of Unicode scalar
  values; text that has been checked to be ASCII is a \<open>string\<close>, and bytes are naturals below 256.
\<close>

section \<open>Characters\<close>

abbreviation code :: "char \<Rightarrow> nat" where "code c \<equiv> of_char c"

definition is_ascii_digit :: "char \<Rightarrow> bool" where
  "is_ascii_digit c \<longleftrightarrow> 48 \<le> code c \<and> code c \<le> 57"

definition is_ascii_alphanumeric :: "char \<Rightarrow> bool" where
  "is_ascii_alphanumeric c \<longleftrightarrow> is_ascii_digit c \<or> 65 \<le> code c \<and> code c \<le> 90 \<or> 97 \<le> code c \<and> code c \<le> 122"

definition is_lower_hex :: "char \<Rightarrow> bool" where
  "is_lower_hex c \<longleftrightarrow> is_ascii_digit c \<or> 97 \<le> code c \<and> code c \<le> 102"

definition is_ascii_hexdigit :: "char \<Rightarrow> bool" where
  "is_ascii_hexdigit c \<longleftrightarrow> is_lower_hex c \<or> 65 \<le> code c \<and> code c \<le> 70"

text \<open>The white space that \<open>str::trim\<close> removes.\<close>

definition white_space :: "nat \<Rightarrow> bool" where
  "white_space c \<longleftrightarrow> 9 \<le> c \<and> c \<le> 13 \<or> c = 32 \<or> c = 133 \<or> c = 160 \<or> c = 5760 \<or> 8192 \<le> c \<and> c \<le> 8202 \<or>
     c = 8232 \<or> c = 8233 \<or> c = 8239 \<or> c = 8287 \<or> c = 12288"

definition trim :: "nat list \<Rightarrow> nat list" where
  "trim s = rev (dropWhile white_space (rev (dropWhile white_space s)))"

definition is_ascii :: "nat list \<Rightarrow> bool" where
  "is_ascii s \<longleftrightarrow> list_all (\<lambda>c. c < 128) s"

definition text_of :: "string \<Rightarrow> nat list" where
  "text_of s = map of_char s"

definition ascii_string :: "nat list \<Rightarrow> string" where
  "ascii_string s = map char_of s"

fun split_on :: "'a \<Rightarrow> 'a list \<Rightarrow> 'a list list" where
  "split_on d [] = [[]]"
| "split_on d (c # cs) =
     (if c = d then [] # split_on d cs
      else (case split_on d cs of [] \<Rightarrow> [[c]] | p # ps \<Rightarrow> (c # p) # ps))"

section \<open>Email addresses\<close>

datatype normalized_email = NormalizedEmail (as_str: string)

definition local_special :: "char \<Rightarrow> bool" where
  "local_special c \<longleftrightarrow> code c \<in> {46, 33, 35, 36, 37, 38, 39, 42, 43, 45, 47, 61, 63, 94, 95, 96, 123, 124, 125, 126}"

fun contains_double_dot :: "string \<Rightarrow> bool" where
  "contains_double_dot (a # b # s) = (a = CHR ''.'' \<and> b = CHR ''.'' \<or> contains_double_dot (b # s))"
| "contains_double_dot _ = False"

definition valid_local_part :: "string \<Rightarrow> bool" where
  "valid_local_part v \<longleftrightarrow> v \<noteq> [] \<and> length v \<le> 64 \<and> hd v \<noteq> CHR ''.'' \<and> last v \<noteq> CHR ''.'' \<and>
     \<not> contains_double_dot v \<and> list_all (\<lambda>c. is_ascii_alphanumeric c \<or> local_special c) v"

definition valid_label :: "string \<Rightarrow> bool" where
  "valid_label l \<longleftrightarrow> l \<noteq> [] \<and> length l \<le> 63 \<and> hd l \<noteq> CHR ''-'' \<and> last l \<noteq> CHR ''-'' \<and>
     list_all (\<lambda>c. is_ascii_alphanumeric c \<or> c = CHR ''-'') l"

definition valid_domain :: "string \<Rightarrow> bool" where
  "valid_domain v \<longleftrightarrow> v \<noteq> [] \<and> length v \<le> 253 \<and> list_all valid_label (split_on (CHR ''.'') v)"

definition parse_email :: "nat list \<Rightarrow> unit + normalized_email" where
  "parse_email input =
     (let v = trim input in
      if \<not> is_ascii v \<or> length v > 254 then Inl ()
      else (case split_on (CHR ''@'') (ascii_string v) of
              [local_part, domain_part] \<Rightarrow>
                if \<not> valid_local_part local_part \<or> \<not> valid_domain domain_part then Inl ()
                else Inr (NormalizedEmail (map to_ascii_lowercase (ascii_string v)))
            | _ \<Rightarrow> Inl ()))"

section \<open>Opaque identifiers and invitation codes\<close>

definition opaque_identifier :: "string \<Rightarrow> nat \<Rightarrow> bool" where
  "opaque_identifier v n \<longleftrightarrow> length v = n \<and> list_all is_lower_hex v"

definition opaque_request_id :: "string \<Rightarrow> bool" where
  "opaque_request_id v \<longleftrightarrow> length v = 64 \<and> list_all is_lower_hex v"

definition opaque_hex :: "string \<Rightarrow> nat \<Rightarrow> bool" where
  "opaque_hex v byte_count \<longleftrightarrow> length v = byte_count * 2 \<and> list_all is_lower_hex v"

definition RANDOM_VALUE_BYTES :: nat where "RANDOM_VALUE_BYTES = 16"
definition NONCE_BYTES :: nat where "NONCE_BYTES = 12"

definition parse_code :: "nat list \<Rightarrow> string option" where
  "parse_code value =
     (let v = trim value in
      if is_ascii v \<and> length v = RANDOM_VALUE_BYTES * 2 \<and> list_all is_ascii_hexdigit (ascii_string v)
      then Some (map to_ascii_lowercase (ascii_string v)) else None)"

definition valid_provider_id :: "string \<Rightarrow> bool" where
  "valid_provider_id v \<longleftrightarrow> v \<noteq> [] \<and> length v \<le> 256 \<and>
     list_all (\<lambda>c. is_ascii_alphanumeric c \<or> c = CHR ''-'' \<or> c = CHR ''_'') v"

section \<open>Hexadecimal encoding\<close>

definition hex_char :: "nat \<Rightarrow> char" where
  "hex_char d = char_of (if d < 10 then 48 + d else 87 + d)"

definition hex :: "nat list \<Rightarrow> string" where
  "hex bytes = concat (map (\<lambda>b. [hex_char (b div 16), hex_char (b mod 16)]) bytes)"

definition hex_digit :: "char \<Rightarrow> unit + nat" where
  "hex_digit c =
     (if 48 \<le> code c \<and> code c \<le> 57 then Inr (code c - 48)
      else if 97 \<le> code c \<and> code c \<le> 102 then Inr (code c - 97 + 10)
      else Inl ())"

fun decode_pairs :: "string \<Rightarrow> (unit + nat) list" where
  "decode_pairs (a # b # s) =
     bind_res (hex_digit a) (\<lambda>high. bind_res (hex_digit b) (\<lambda>low. Inr (high * 16 + low))) # decode_pairs s"
| "decode_pairs _ = []"

definition decode_hex :: "string \<Rightarrow> unit + nat list" where
  "decode_hex v =
     (if length v mod 2 \<noteq> 0 \<or> \<not> list_all (\<lambda>c. code c < 128) v then Inl ()
      else collect_res (decode_pairs v))"

definition decode_fixed :: "nat \<Rightarrow> string \<Rightarrow> unit + nat list" where
  "decode_fixed n v = bind_res (decode_hex v) (\<lambda>bytes. if length bytes = n then Inr bytes else Inl ())"

section \<open>The authenticated context\<close>

definition append_field :: "nat list \<Rightarrow> nat list \<Rightarrow> unit + nat list" where
  "append_field tgt value =
     (if length value \<le> u16_max
      then Inr (tgt @ [length value div 256, length value mod 256] @ value) else Inl ())"

definition context_prefix :: "nat list" where
  "context_prefix = text_of ''chenchess-beta-invitation-v1'' @ [0]"

definition lookup_prefix :: "nat list" where
  "lookup_prefix = text_of ''chenchess-beta-invitation-lookup-v1'' @ [0]"

text \<open>The \<open>expect\<close> of the source turns an error of \<open>append_field\<close> into a panic, here an error.\<close>

definition canonical_context :: "string \<Rightarrow> normalized_email \<Rightarrow> unit + nat list" where
  "canonical_context i email =
     bind_res (append_field context_prefix (text_of i)) (\<lambda>c. append_field c (text_of (as_str email)))"

definition authenticated_message :: "string \<Rightarrow> normalized_email \<Rightarrow> string \<Rightarrow> unit + nat list" where
  "authenticated_message i email invitation_code =
     bind_res (canonical_context i email) (\<lambda>c. append_field c (text_of invitation_code))"

definition lookup_message :: "string \<Rightarrow> unit + nat list" where
  "lookup_message invitation_code = append_field lookup_prefix (text_of invitation_code)"

section \<open>Lemmas on characters\<close>

lemma code_lower: "code (to_ascii_lowercase c) = (if 65 \<le> code c \<and> code c \<le> 90 then code c + 32 else code c)"
  by (simp add: to_ascii_lowercase_def)

lemma lower_cases:
  obtains (upper) "65 \<le> code c" "code c \<le> 90" "code (to_ascii_lowercase c) = code c + 32"
    "is_ascii_alphanumeric c" "is_ascii_alphanumeric (to_ascii_lowercase c)"
  | (same) "to_ascii_lowercase c = c"
proof (cases "65 \<le> code c \<and> code c \<le> 90")
  case True
  then show thesis using upper code_lower [of c] by (auto simp: is_ascii_alphanumeric_def)
next
  case False
  show thesis using False by (intro same) (auto simp: to_ascii_lowercase_def)
qed

lemma lower_alphanumeric: "is_ascii_alphanumeric (to_ascii_lowercase c) = is_ascii_alphanumeric c"
  by (cases c rule: lower_cases) simp_all

lemma lower_eq_other: "code d < 65 \<Longrightarrow> to_ascii_lowercase c = d \<longleftrightarrow> c = d"
  by (cases c rule: lower_cases) auto

lemma lower_special: "is_ascii_alphanumeric (to_ascii_lowercase c) \<or> local_special (to_ascii_lowercase c)
   \<longleftrightarrow> is_ascii_alphanumeric c \<or> local_special c"
  by (cases c rule: lower_cases) simp_all

lemma lower_lower: "to_ascii_lowercase (to_ascii_lowercase c) = to_ascii_lowercase c"
  by (cases c rule: lower_cases) (simp_all add: to_ascii_lowercase_def [of "to_ascii_lowercase c"])

lemma lower_hex: "is_ascii_hexdigit c \<Longrightarrow> is_lower_hex (to_ascii_lowercase c)"
  by (auto simp: is_ascii_hexdigit_def is_lower_hex_def is_ascii_digit_def code_lower)

section \<open>Normalization is idempotent\<close>

lemma split_on_map:
  "(\<And>c. f c = d \<longleftrightarrow> c = d) \<Longrightarrow> split_on d (map f s) = map (map f) (split_on d s)"
  by (induction s) (auto split: list.splits)

lemma double_dot_map:
  "(\<And>c. f c = CHR ''.'' \<longleftrightarrow> c = CHR ''.'') \<Longrightarrow> contains_double_dot (map f s) = contains_double_dot s"
  by (induction s rule: contains_double_dot.induct) simp_all

lemma code_dot: "code (CHR ''.'') = 46" "code (CHR ''-'') = 45" "code (CHR ''@'') = 64" "code (CHR ''_'') = 95"
  by simp_all

lemma valid_local_lower: "valid_local_part (map to_ascii_lowercase v) = valid_local_part v"
  using lower_eq_other [of "CHR ''.''"]
  by (cases "v = []")
    (simp_all add: valid_local_part_def hd_map last_map double_dot_map list_all_iff lower_special)

lemma valid_label_lower: "valid_label (map to_ascii_lowercase v) = valid_label v"
  using lower_eq_other [of "CHR ''-''"]
  by (cases "v = []")
    (simp_all add: valid_label_def hd_map last_map list_all_iff lower_alphanumeric)

lemma valid_domain_lower: "valid_domain (map to_ascii_lowercase v) = valid_domain v"
  using lower_eq_other [of "CHR ''.''"]
  by (simp add: valid_domain_def split_on_map list_all_iff valid_label_lower)

lemma trim_ends:
  assumes "trim s = v" and "v \<noteq> []"
  shows "\<not> white_space (hd v)" and "\<not> white_space (last v)"
proof -
  let ?d = "dropWhile white_space s"
  let ?r = "dropWhile white_space (rev ?d)"
  have v: "v = rev ?r" using assms(1) by (simp add: trim_def)
  then have r: "?r \<noteq> []" using assms(2) by simp
  show "\<not> white_space (last v)" using hd_dropWhile [OF r] v by (simp add: last_rev)
  obtain p where "rev ?d = p @ ?r" by (metis takeWhile_dropWhile_id)
  then have "?d = v @ rev p" using v by (metis rev_append rev_rev_ident)
  then have "hd ?d = hd v" "?d \<noteq> []" using assms(2) by auto
  then show "\<not> white_space (hd v)" using hd_dropWhile by metis
qed

lemma trim_id: "v = [] \<or> \<not> white_space (hd v) \<and> \<not> white_space (last v) \<Longrightarrow> trim v = v"
proof -
  assume v: "v = [] \<or> \<not> white_space (hd v) \<and> \<not> white_space (last v)"
  then have "dropWhile white_space v = v" by (cases v) auto
  moreover have "dropWhile white_space (rev v) = rev v" using v by (cases v rule: rev_cases) auto
  ultimately show ?thesis by (simp add: trim_def)
qed

lemma text_ascii: "is_ascii v \<Longrightarrow> text_of (ascii_string v) = v"
  by (induction v) (simp_all add: text_of_def ascii_string_def is_ascii_def)

lemma ascii_text: "ascii_string (text_of s) = s"
  by (induction s) (simp_all add: text_of_def ascii_string_def)

lemma lower_white: "\<not> white_space (code c) \<Longrightarrow> \<not> white_space (code (to_ascii_lowercase c))"
  by (cases c rule: lower_cases) (auto simp: white_space_def)

lemma lower_ascii: "code c < 128 \<Longrightarrow> code (to_ascii_lowercase c) < 128"
  by (simp add: code_lower)

lemma parse_email_Inr:
  "parse_email input = Inr e \<longleftrightarrow> (\<exists>local_part domain_part. is_ascii (trim input) \<and> length (trim input) \<le> 254 \<and>
     split_on (CHR ''@'') (ascii_string (trim input)) = [local_part, domain_part] \<and>
     valid_local_part local_part \<and> valid_domain domain_part \<and>
     e = NormalizedEmail (map to_ascii_lowercase (ascii_string (trim input))))"
  by (auto simp: parse_email_def Let_def not_le split: list.splits)

lemma split_on_not_Nil [simp]: "split_on d s \<noteq> []"
  by (induction s) (auto split: list.splits)

lemma parse_email_normal:
  assumes "parse_email input = Inr e"
  shows "parse_email (text_of (as_str e)) = Inr e"
proof -
  let ?v = "trim input"
  let ?s = "map to_ascii_lowercase (ascii_string ?v)"
  obtain l d where p: "is_ascii ?v" "length ?v \<le> 254" "split_on (CHR ''@'') (ascii_string ?v) = [l, d]"
    "valid_local_part l" "valid_domain d" and e: "e = NormalizedEmail ?s"
    using assms parse_email_Inr by blast
  have ne: "?v \<noteq> []"
  proof
    assume "?v = []"
    then show False using p(3) by (simp add: ascii_string_def)
  qed
  have codes: "text_of (ascii_string ?v) = ?v" using text_ascii [OF p(1)] .
  have cv: "code c \<in> set ?v" if "c \<in> set (ascii_string ?v)" for c
    using that codes by (metis image_eqI list.set_map text_of_def)
  have "hd ?v = code (hd (ascii_string ?v))" "last ?v = code (last (ascii_string ?v))"
    using codes ne unfolding text_of_def
    by (metis ascii_string_def hd_map list.map_disc_iff, metis ascii_string_def last_map list.map_disc_iff)
  then have "\<not> white_space (hd (text_of ?s))" "\<not> white_space (last (text_of ?s))"
    using trim_ends [OF refl ne] ne lower_white
    by (simp_all add: text_of_def hd_map last_map ascii_string_def)
  then have tr: "trim (text_of ?s) = text_of ?s" by (intro trim_id) simp
  have asc: "is_ascii (text_of ?s)"
    using p(1) lower_ascii cv by (auto simp: is_ascii_def list_all_iff text_of_def)
  have "split_on (CHR ''@'') ?s = [map to_ascii_lowercase l, map to_ascii_lowercase d]"
    using lower_eq_other [of "CHR ''@''"] p(3) by (simp add: split_on_map)
  moreover have "map to_ascii_lowercase ?s = ?s" using lower_lower by simp
  ultimately have "parse_email (text_of ?s) = Inr (NormalizedEmail ?s)"
    unfolding parse_email_Inr tr ascii_text
    using asc p by (simp add: valid_local_lower valid_domain_lower) (simp add: text_of_def ascii_string_def)
  then show ?thesis by (simp add: e)
qed

lemma parse_code_opaque: "parse_code value = Some c \<Longrightarrow> opaque_hex c RANDOM_VALUE_BYTES"
  by (auto simp: parse_code_def Let_def opaque_hex_def list_all_iff lower_hex ascii_string_def split: if_splits)

section \<open>Round trip of the hexadecimal encoding\<close>

lemma hex_digit_char: "d < 16 \<Longrightarrow> hex_digit (hex_char d) = Inr d"
  by (auto simp: hex_digit_def hex_char_def)

lemma hex_Cons: "hex (b # bs) = [hex_char (b div 16), hex_char (b mod 16)] @ hex bs"
  by (simp add: hex_def)

lemma decode_pairs_hex: "\<forall>b\<in>set bs. b < 256 \<Longrightarrow> decode_pairs (hex bs) = map Inr bs"
  by (induction bs) (simp_all add: hex_Cons hex_digit_char less_mult_imp_div_less, simp add: hex_def)

lemma hex_lower: "\<forall>b\<in>set bs. b < 256 \<Longrightarrow> opaque_hex (hex bs) (length bs)"
proof (induction bs)
  case (Cons b bs)
  have "is_lower_hex (hex_char d)" if "d < 16" for d
    using that by (auto simp: is_lower_hex_def is_ascii_digit_def hex_char_def)
  moreover have "b div 16 < 16" "b mod 16 < 16" using Cons.prems by auto
  ultimately show ?case using Cons by (simp add: hex_Cons opaque_hex_def)
qed (simp add: hex_def opaque_hex_def)

lemma decode_hex_hex:
  assumes "\<forall>b\<in>set bs. b < 256"
  shows "decode_hex (hex bs) = Inr bs"
proof -
  have "\<forall>c\<in>set (hex bs). code c < 128"
    using hex_lower [OF assms] by (auto simp: opaque_hex_def list_all_iff is_lower_hex_def is_ascii_digit_def)
  moreover have "collect_res (decode_pairs (hex bs)) = Inr bs"
    using decode_pairs_hex [OF assms] collect_res_Inr by metis
  ultimately show ?thesis
    using hex_lower [OF assms] by (simp add: decode_hex_def opaque_hex_def list_all_iff)
qed

section \<open>The context determines its fields\<close>

lemma append_field_inj:
  assumes "append_field t v = Inr m" and "append_field t v' = Inr m'" and "m @ r = m' @ r'"
  shows "v = v' \<and> r = r'"
proof -
  have le: "length v \<le> u16_max" "length v' \<le> u16_max" and
    eq: "[length v div 256, length v mod 256] @ v @ r = [length v' div 256, length v' mod 256] @ v' @ r'"
    using assms by (auto simp: append_field_def split: if_splits)
  then have "length v = length v'" by (metis append_Cons div_mult_mod_eq list.inject)
  with eq show ?thesis by simp
qed

lemma append_field_prefix: "append_field t v = Inr m \<Longrightarrow> \<exists>s. m = t @ s"
  by (auto simp: append_field_def split: if_splits)

lemma authenticated_message_inj:
  assumes "authenticated_message i e c = Inr m" and "authenticated_message i' e' c' = Inr m"
  shows "i = i' \<and> e = e' \<and> c = c'"
proof -
  have inj: "text_of a = text_of b \<Longrightarrow> a = b" for a b using ascii_text by metis
  obtain f g where f: "append_field context_prefix (text_of i) = Inr f"
    "append_field f (text_of (as_str e)) = Inr g" "append_field g (text_of c) = Inr m"
    using assms(1) by (auto simp: authenticated_message_def canonical_context_def bind_res_Inr_conv)
  obtain f' g' where f': "append_field context_prefix (text_of i') = Inr f'"
    "append_field f' (text_of (as_str e')) = Inr g'" "append_field g' (text_of c') = Inr m"
    using assms(2) by (auto simp: authenticated_message_def canonical_context_def bind_res_Inr_conv)
  obtain r s r' s' where "g = f @ r" "m = g @ s" "g' = f' @ r'" "m = g' @ s'"
    using append_field_prefix f f' by metis
  then have "f @ r @ s = f' @ r' @ s'" by simp
  from append_field_inj [OF f(1) f'(1) this] have i: "i = i'" "r @ s = r' @ s'" using inj by blast+
  then have ff: "f = f'" using f(1) f'(1) by simp
  then have "g @ s = g' @ s'" using \<open>m = g @ s\<close> \<open>m = g' @ s'\<close> by simp
  from append_field_inj [OF f(2) f'(2) [folded ff] this] have e: "as_str e = as_str e'" using inj by blast
  then have "g = g'" using f(2) f'(2) ff by simp
  then have "c = c'" using append_field_inj [OF f(3), of "text_of c'" m "[]" "[]"] f'(3) inj by simp
  with i e show ?thesis by (simp add: normalized_email.expand)
qed

end
