(* ===== verification/BetaTypes.thy ===== *)
theory BetaTypes
  imports BetaText OrdMap
begin

text \<open>
  The records of Beta Access (\<open>beta_access.rs\<close>, \<open>beta_access/invitation.rs\<close>, \<open>redemption.rs\<close> and the
  documents of \<open>beta_access/firestore.rs\<close>) with their shape predicates, and the rate-limit window.
  A time is a number of nanoseconds.
\<close>

section \<open>Errors and statuses\<close>

datatype beta_error =
    ErrConfiguration string | ErrTransport | ErrUnavailable | ErrConflict | ErrInvalidRecord | ErrNotFound

datatype delivery_status = DeliveryPending | DeliverySent | DeliveryFailed

datatype invitation_status = Issued | Revoked | Redeemed

datatype request_status = RequestPending | RequestGranted

datatype authorization_status = AccessActive | AccessRevoked

datatype delivery_attempt = AttemptSent string | AttemptFailed bool

fun attempt_status :: "delivery_attempt \<Rightarrow> delivery_status" where
  "attempt_status (AttemptSent _) = DeliverySent"
| "attempt_status (AttemptFailed _) = DeliveryFailed"

fun attempt_metadata :: "delivery_attempt \<Rightarrow> bool option \<times> string option" where
  "attempt_metadata (AttemptSent message_id) = (None, Some message_id)"
| "attempt_metadata (AttemptFailed retryable) = (Some retryable, None)"

section \<open>Invitations\<close>

definition AUTHENTICATOR_VERSION :: nat where "AUTHENTICATOR_VERSION = 1"
definition ENCRYPTION_VERSION :: nat where "ENCRYPTION_VERSION = 1"
definition RECORD_VERSION :: nat where "RECORD_VERSION = 1"

text \<open>\<open>aead::MAX_TAG_LEN\<close> of the cipher in use, AES-256-GCM.\<close>

definition MAX_TAG_LEN :: nat where "MAX_TAG_LEN = 16"

record stored_invitation =
  si_authenticator :: string
  si_authenticator_version :: nat
  si_ciphertext :: string
  si_created_at :: int
  si_delivery_attempt :: nat
  si_delivery_retryable :: "bool option"
  si_delivery_status :: delivery_status
  si_email :: normalized_email
  si_encryption_nonce :: string
  si_encryption_version :: nat
  si_id :: string
  si_lookup_id :: string
  si_provider_message_id :: "string option"
  si_record_version :: nat
  si_redeemed_at :: "int option"
  si_redeemed_by :: "string option"
  si_request_id :: string
  si_status :: invitation_status

definition redemption_shape :: "stored_invitation \<Rightarrow> bool" where
  "redemption_shape i = (case si_status i of
     Redeemed \<Rightarrow> (case si_redeemed_at i of None \<Rightarrow> False | Some t \<Rightarrow> si_created_at i \<le> t) \<and>
       si_redeemed_by i \<noteq> None
   | _ \<Rightarrow> si_redeemed_at i = None \<and> si_redeemed_by i = None)"

definition delivery_shape :: "stored_invitation \<Rightarrow> bool" where
  "delivery_shape i = (case si_delivery_status i of
     DeliveryPending \<Rightarrow> si_delivery_retryable i = None \<and> si_provider_message_id i = None
   | DeliverySent \<Rightarrow> si_delivery_retryable i = None \<and>
       (case si_provider_message_id i of None \<Rightarrow> False | Some m \<Rightarrow> valid_provider_id m)
   | DeliveryFailed \<Rightarrow> si_delivery_retryable i \<noteq> None \<and> si_provider_message_id i = None)"

definition valid_shape :: "stored_invitation \<Rightarrow> bool" where
  "valid_shape i \<longleftrightarrow>
     si_authenticator_version i = AUTHENTICATOR_VERSION \<and>
     si_encryption_version i = ENCRYPTION_VERSION \<and>
     si_record_version i = RECORD_VERSION \<and>
     0 < si_delivery_attempt i \<and>
     opaque_hex (si_id i) RANDOM_VALUE_BYTES \<and>
     opaque_hex (si_lookup_id i) 32 \<and>
     opaque_hex (si_request_id i) 32 \<and>
     opaque_hex (si_authenticator i) 32 \<and>
     opaque_hex (si_encryption_nonce i) NONCE_BYTES \<and>
     opaque_hex (si_ciphertext i) (RANDOM_VALUE_BYTES * 2 + MAX_TAG_LEN) \<and>
     redemption_shape i \<and> delivery_shape i"

section \<open>Requests\<close>

record beta_request =
  br_id :: string
  br_email :: normalized_email
  br_status :: request_status
  br_created_at :: int
  br_delivery_status :: "delivery_status option"
  br_delivery_retryable :: "bool option"
  br_invitation_status :: "invitation_status option"
  br_access_status :: "authorization_status option"

definition access_is_active :: "beta_request \<Rightarrow> bool" where
  "access_is_active r \<longleftrightarrow> br_access_status r = Some AccessActive"

record admin_request =
  ar_request :: beta_request
  ar_redeemed_player_id :: "string option"

definition admin_request_new :: "beta_request \<Rightarrow> stored_invitation option \<Rightarrow> beta_error + admin_request" where
  "admin_request_new request invitation =
     (if br_invitation_status request = Some Redeemed then
        bind_res (ok_or ErrInvalidRecord invitation) (\<lambda>i.
          if \<not> valid_shape i \<or> si_request_id i \<noteq> br_id request \<or> si_email i \<noteq> br_email request \<or>
             si_status i \<noteq> Redeemed \<or> Some (si_delivery_status i) \<noteq> br_delivery_status request \<or>
             si_delivery_retryable i \<noteq> br_delivery_retryable request
          then Inl ErrInvalidRecord
          else bind_res (ok_or ErrInvalidRecord (si_redeemed_by i)) (\<lambda>player.
            Inr \<lparr>ar_request = request, ar_redeemed_player_id = Some player\<rparr>))
      else Inr \<lparr>ar_request = request, ar_redeemed_player_id = None\<rparr>)"

section \<open>Rate limits\<close>

definition hours :: "int \<Rightarrow> int" where "hours n = n * 3600000000000"
definition RATE_LIMIT_LIFETIME_HOURS :: int where "RATE_LIMIT_LIFETIME_HOURS = 24"
definition EMAIL_ATTEMPT_LIMIT :: nat where "EMAIL_ATTEMPT_LIMIT = 5"
definition IP_ATTEMPT_LIMIT :: nat where "IP_ATTEMPT_LIMIT = 25"
definition REDEMPTION_PLAYER_ATTEMPT_LIMIT :: nat where "REDEMPTION_PLAYER_ATTEMPT_LIMIT = 10"
definition REDEMPTION_IP_ATTEMPT_LIMIT :: nat where "REDEMPTION_IP_ATTEMPT_LIMIT = 25"

record rate_limit =
  rl_attempts :: nat
  rl_window_started_at :: int
  rl_purge_at :: int

definition rate_limit_consume :: "rate_limit option \<Rightarrow> nat \<Rightarrow> int \<Rightarrow> rate_limit \<times> bool" where
  "rate_limit_consume current limit now =
     (let fresh = \<lparr>rl_attempts = 0, rl_window_started_at = now,
                   rl_purge_at = now + hours RATE_LIMIT_LIFETIME_HOURS\<rparr>;
          state = (case current of None \<Rightarrow> fresh | Some s \<Rightarrow> if rl_purge_at s > now then s else fresh)
      in if rl_attempts state \<ge> limit then (state, False)
         else (state\<lparr>rl_attempts := rl_attempts state + 1\<rparr>, True))"

definition rate_limit_valid_shape :: "rate_limit \<Rightarrow> bool" where
  "rate_limit_valid_shape s \<longleftrightarrow> rl_attempts s > 0 \<and> rl_purge_at s > rl_window_started_at s \<and>
     rl_purge_at s - rl_window_started_at s \<le> hours RATE_LIMIT_LIFETIME_HOURS"

section \<open>Documents\<close>

definition SCHEMA_VERSION :: nat where "SCHEMA_VERSION = 1"

record request_doc =
  rd_schema_version :: nat
  rd_email :: string
  rd_status :: request_status
  rd_created_at :: int
  rd_delivery_status :: "delivery_status option"
  rd_delivery_retryable :: "bool option"
  rd_invitation_id :: "string option"
  rd_invitation_status :: "invitation_status option"
  rd_access_status :: "authorization_status option"

record rate_limit_doc =
  ld_schema_version :: nat
  ld_attempts :: nat
  ld_window_started_at :: int
  ld_purge_at :: int

definition limit_into_state :: "rate_limit_doc \<Rightarrow> beta_error + rate_limit" where
  "limit_into_state d =
     (if ld_schema_version d \<noteq> SCHEMA_VERSION then Inl ErrInvalidRecord
      else (let state = \<lparr>rl_attempts = ld_attempts d, rl_window_started_at = ld_window_started_at d,
                         rl_purge_at = ld_purge_at d\<rparr>
            in if \<not> rate_limit_valid_shape state then Inl ErrInvalidRecord else Inr state))"

definition limit_from_state :: "rate_limit \<Rightarrow> rate_limit_doc" where
  "limit_from_state s =
     \<lparr>ld_schema_version = SCHEMA_VERSION, ld_attempts = rl_attempts s,
      ld_window_started_at = rl_window_started_at s, ld_purge_at = rl_purge_at s\<rparr>"

text \<open>\<open>option.map(into_state).transpose()\<close>.\<close>

definition limit_state :: "rate_limit_doc option \<Rightarrow> beta_error + rate_limit option" where
  "limit_state d = (case d of None \<Rightarrow> Inr None | Some l \<Rightarrow> bind_res (limit_into_state l) (\<lambda>s. Inr (Some s)))"

record submission =
  sub_email :: normalized_email
  sub_email_rate_key :: string
  sub_ip_rate_key :: string
  sub_now :: int

definition request_pending :: "submission \<Rightarrow> request_doc" where
  "request_pending s =
     \<lparr>rd_schema_version = SCHEMA_VERSION, rd_email = as_str (sub_email s), rd_status = RequestPending,
      rd_created_at = sub_now s, rd_delivery_status = None, rd_delivery_retryable = None,
      rd_invitation_id = None, rd_invitation_status = None, rd_access_status = None\<rparr>"

definition valid_invitation_projection :: "request_doc \<Rightarrow> bool" where
  "valid_invitation_projection d = (case rd_status d of
     RequestPending \<Rightarrow> rd_invitation_id d = None \<and> rd_invitation_status d = None \<and>
       rd_delivery_status d = None \<and> rd_delivery_retryable d = None \<and> rd_access_status d = None
   | RequestGranted \<Rightarrow>
       (case rd_invitation_id d of None \<Rightarrow> False | Some i \<Rightarrow> length i = 32 \<and> list_all is_lower_hex i) \<and>
       rd_invitation_status d \<noteq> None \<and>
       (case rd_delivery_status d of
          Some DeliveryFailed \<Rightarrow> rd_delivery_retryable d \<noteq> None
        | Some _ \<Rightarrow> rd_delivery_retryable d = None
        | None \<Rightarrow> False) \<and>
       (case rd_invitation_status d of Some Redeemed \<Rightarrow> True | _ \<Rightarrow> rd_access_status d = None))"

definition request_matches :: "request_doc \<Rightarrow> normalized_email \<Rightarrow> bool" where
  "request_matches d email \<longleftrightarrow> rd_schema_version d = SCHEMA_VERSION \<and>
     parse_email (text_of (rd_email d)) = Inr email \<and> valid_invitation_projection d"

definition into_request :: "request_doc \<Rightarrow> string \<Rightarrow> beta_error + beta_request" where
  "into_request d i =
     (case parse_email (text_of (rd_email d)) of
        Inl _ \<Rightarrow> Inl ErrInvalidRecord
      | Inr email \<Rightarrow>
          if rd_schema_version d \<noteq> SCHEMA_VERSION \<or> as_str email \<noteq> rd_email d \<or>
             \<not> opaque_request_id i \<or> \<not> valid_invitation_projection d
          then Inl ErrInvalidRecord
          else Inr \<lparr>br_id = i, br_email = email, br_status = rd_status d,
                    br_created_at = rd_created_at d, br_delivery_status = rd_delivery_status d,
                    br_delivery_retryable = rd_delivery_retryable d,
                    br_invitation_status = rd_invitation_status d,
                    br_access_status = (case rd_invitation_status d of
                       Some Redeemed \<Rightarrow> Some (case rd_access_status d of None \<Rightarrow> AccessActive | Some a \<Rightarrow> a)
                     | _ \<Rightarrow> None)\<rparr>)"

record lookup_doc =
  lk_schema_version :: nat
  lk_invitation_id :: string
  lk_created_at :: int

definition lookup_new :: "stored_invitation \<Rightarrow> lookup_doc" where
  "lookup_new i = \<lparr>lk_schema_version = SCHEMA_VERSION, lk_invitation_id = si_id i, lk_created_at = si_created_at i\<rparr>"

definition lookup_valid_for :: "lookup_doc \<Rightarrow> string \<Rightarrow> bool" where
  "lookup_valid_for l lookup_id \<longleftrightarrow> lk_schema_version l = SCHEMA_VERSION \<and>
     opaque_identifier lookup_id 64 \<and> opaque_identifier (lk_invitation_id l) 32"

record grant_doc =
  gd_schema_version :: nat
  gd_invitation_id :: string
  gd_granted_at :: int

definition grant_new :: "string \<Rightarrow> int \<Rightarrow> grant_doc" where
  "grant_new i t = \<lparr>gd_schema_version = SCHEMA_VERSION, gd_invitation_id = i, gd_granted_at = t\<rparr>"

definition grant_valid_shape :: "grant_doc \<Rightarrow> bool" where
  "grant_valid_shape g \<longleftrightarrow> gd_schema_version g = SCHEMA_VERSION \<and> opaque_identifier (gd_invitation_id g) 32"

definition grants_invitation :: "grant_doc \<Rightarrow> string \<Rightarrow> bool" where
  "grants_invitation g i \<longleftrightarrow> grant_valid_shape g \<and> gd_invitation_id g = i"

section \<open>Commands and their results\<close>

datatype store_outcome = Recorded | Duplicate | OutcomeRateLimited

datatype grant_target = TargetPending normalized_email | TargetAlreadyGranted

datatype invitation_target = TargetNotIssued | TargetInvitation stored_invitation

datatype grant_commit = GrantIssued | GrantAlreadyGranted

datatype retry_commit = RetryStarted nat | RetryNotRetryable | RetryRevoked | RetryRedeemed

datatype revoke_result = RevokeDone | RevokeNotIssued | RevokeAlreadyRevoked | RevokeAlreadyRedeemed

datatype access_revoke_result = AccessRevokeDone | AccessRevokeNotGranted | AccessRevokeAlready

record redemption_attempt =
  ra_ip_rate_key :: string
  ra_lookup_id :: "string option"
  ra_now :: int
  ra_player_rate_key :: string

datatype redemption_target =
    RedeemCandidate stored_invitation | RedeemInvalid | RedeemRevoked | RedeemAlreadyHandled | RedeemRateLimited

record redemption_candidate =
  rc_authenticator :: string
  rc_email :: normalized_email
  rc_invitation_id :: string
  rc_lookup_id :: string
  rc_request_id :: string

definition candidate_of :: "stored_invitation \<Rightarrow> redemption_candidate" where
  "candidate_of i =
     \<lparr>rc_authenticator = si_authenticator i, rc_email = si_email i, rc_invitation_id = si_id i,
      rc_lookup_id = si_lookup_id i, rc_request_id = si_request_id i\<rparr>"

datatype redemption_commit = CommitGranted | CommitRevoked | CommitAlreadyHandled

section \<open>Lemmas\<close>

text \<open>A window never admits more than its limit, and a consumed window keeps its shape.\<close>

lemma consume_allowed:
  "rate_limit_consume c limit now = (s, True) \<Longrightarrow> 0 < rl_attempts s \<and> rl_attempts s \<le> limit \<and> now < rl_purge_at s"
  by (auto simp: rate_limit_consume_def Let_def hours_def RATE_LIMIT_LIFETIME_HOURS_def
      split: option.splits if_splits)

lemma consume_valid_shape:
  assumes "rate_limit_consume c limit now = (s, True)" and "\<And>r. c = Some r \<Longrightarrow> rate_limit_valid_shape r"
  shows "rate_limit_valid_shape s"
  using assms
  by (auto simp: rate_limit_consume_def rate_limit_valid_shape_def Let_def hours_def
      RATE_LIMIT_LIFETIME_HOURS_def split: option.splits if_splits)

lemma limit_state_from_state:
  "rate_limit_valid_shape s \<Longrightarrow> limit_state (Some (limit_from_state s)) = Inr (Some s)"
  by (cases s) (simp add: limit_state_def limit_into_state_def limit_from_state_def Let_def)

end
