(* ===== verification/BetaStore.thy ===== *)
theory BetaStore
  imports BetaTypes
begin

text \<open>
  The Firestore store of Beta Access (\<open>beta_access/firestore.rs\<close>, \<open>firestore/grant.rs\<close>,
  \<open>firestore/redemption.rs\<close>). The database is a record of collections keyed by document id. A
  transaction reads a snapshot and decides an error, or a result with the writes to commit (none
  where the source rolls back); committing checks the write preconditions. The attempts of the
  retry loop may fail in the database; the hash of the grant path is a parameter.
\<close>

section \<open>Collections and writes\<close>

record beta_db =
  db_requests :: "(string, request_doc) btree_map"
  db_invitations :: "(string, stored_invitation) btree_map"
  db_lookups :: "(string, lookup_doc) btree_map"
  db_limits :: "(string, rate_limit_doc) btree_map"
  db_grants :: "(string, grant_doc) btree_map"

definition empty_db :: beta_db where
  "empty_db = \<lparr>db_requests = [], db_invitations = [], db_lookups = [], db_limits = [], db_grants = []\<rparr>"

datatype beta_write =
    CreateRequest string request_doc
  | UpdateRequest string request_doc
  | CreateInvitation string stored_invitation
  | UpdateInvitation string stored_invitation
  | CreateLookup string lookup_doc
  | CreateLimit string rate_limit_doc
  | UpdateLimit string rate_limit_doc
  | CreateGrant string grant_doc
  | DeleteGrant string

text \<open>A create of an existing document is a conflict, an update of a missing one is reported as
  unavailable.\<close>

definition create_in :: "('v, 'w) btree_map \<Rightarrow> 'v \<Rightarrow> 'd \<Rightarrow> beta_error + 'd" where
  "create_in m k d = (if bt_get m k = None then Inr d else Inl ErrConflict)"

definition update_in :: "('v, 'w) btree_map \<Rightarrow> 'v \<Rightarrow> 'd \<Rightarrow> beta_error + 'd" where
  "update_in m k d = (if bt_get m k \<noteq> None then Inr d else Inl ErrUnavailable)"

fun apply_write :: "beta_write \<Rightarrow> beta_db \<Rightarrow> beta_error + beta_db" where
  "apply_write (CreateRequest k d) db =
     create_in (db_requests db) k (db\<lparr>db_requests := bt_insert k d (db_requests db)\<rparr>)"
| "apply_write (UpdateRequest k d) db =
     update_in (db_requests db) k (db\<lparr>db_requests := bt_insert k d (db_requests db)\<rparr>)"
| "apply_write (CreateInvitation k d) db =
     create_in (db_invitations db) k (db\<lparr>db_invitations := bt_insert k d (db_invitations db)\<rparr>)"
| "apply_write (UpdateInvitation k d) db =
     update_in (db_invitations db) k (db\<lparr>db_invitations := bt_insert k d (db_invitations db)\<rparr>)"
| "apply_write (CreateLookup k d) db =
     create_in (db_lookups db) k (db\<lparr>db_lookups := bt_insert k d (db_lookups db)\<rparr>)"
| "apply_write (CreateLimit k d) db =
     create_in (db_limits db) k (db\<lparr>db_limits := bt_insert k d (db_limits db)\<rparr>)"
| "apply_write (UpdateLimit k d) db =
     update_in (db_limits db) k (db\<lparr>db_limits := bt_insert k d (db_limits db)\<rparr>)"
| "apply_write (CreateGrant k d) db =
     create_in (db_grants db) k (db\<lparr>db_grants := bt_insert k d (db_grants db)\<rparr>)"
| "apply_write (DeleteGrant k) db = Inr (db\<lparr>db_grants := bt_remove k (db_grants db)\<rparr>)"

fun apply_writes :: "beta_write list \<Rightarrow> beta_db \<Rightarrow> beta_error + beta_db" where
  "apply_writes [] db = Inr db"
| "apply_writes (w # ws) db = bind_res (apply_write w db) (apply_writes ws)"

type_synonym 'r transaction = "beta_db \<Rightarrow> beta_error + (beta_write list \<times> 'r)"

section \<open>Transactions\<close>

definition rollback :: "'r \<Rightarrow> beta_error + (beta_write list \<times> 'r)" where
  "rollback r = Inr ([], r)"

text \<open>\<open>rate_limit_write\<close>.\<close>

definition rate_limit_write :: "string \<Rightarrow> bool \<Rightarrow> rate_limit \<Rightarrow> beta_write" where
  "rate_limit_write path is_present state =
     (if is_present then UpdateLimit path (limit_from_state state)
      else CreateLimit path (limit_from_state state))"

definition submit_tx :: "submission \<Rightarrow> store_outcome transaction" where
  "submit_tx s db =
     (let request = bt_get (db_requests db) (sub_email_rate_key s);
          email_path = ''email-'' @ sub_email_rate_key s;
          ip_path = ''ip-'' @ sub_ip_rate_key s;
          email_limit = bt_get (db_limits db) email_path;
          ip_limit = bt_get (db_limits db) ip_path
      in if (case request of None \<Rightarrow> False | Some r \<Rightarrow> \<not> request_matches r (sub_email s))
         then Inl ErrInvalidRecord
         else bind_res (limit_state email_limit) (\<lambda>email_current.
           let (email_state, email_allowed) = rate_limit_consume email_current EMAIL_ATTEMPT_LIMIT (sub_now s)
           in bind_res (limit_state ip_limit) (\<lambda>ip_current.
             let (ip_state, ip_allowed) = rate_limit_consume ip_current IP_ATTEMPT_LIMIT (sub_now s)
             in if \<not> email_allowed \<or> \<not> ip_allowed then rollback OutcomeRateLimited
                else (let writes = [rate_limit_write email_path (email_limit \<noteq> None) email_state,
                                    rate_limit_write ip_path (ip_limit \<noteq> None) ip_state]
                      in if request \<noteq> None then Inr (writes, Duplicate)
                         else Inr (writes @ [CreateRequest (sub_email_rate_key s) (request_pending s)],
                                   Recorded)))))"

text \<open>\<open>grant_target\<close> and \<open>has_access\<close> read single documents.\<close>

definition grant_target_read :: "string \<Rightarrow> beta_db \<Rightarrow> beta_error + grant_target" where
  "grant_target_read request_id db =
     (if \<not> opaque_request_id request_id then Inl ErrInvalidRecord
      else bind_res (ok_or ErrNotFound (bt_get (db_requests db) request_id)) (\<lambda>document.
        bind_res (into_request document request_id) (\<lambda>request.
          case br_status request of
            RequestPending \<Rightarrow> Inr (TargetPending (br_email request))
          | RequestGranted \<Rightarrow> Inr TargetAlreadyGranted)))"

definition player_has_access :: "(string \<Rightarrow> string) \<Rightarrow> string \<Rightarrow> beta_db \<Rightarrow> beta_error + bool" where
  "player_has_access path_of player_id db =
     (case bt_get (db_grants db) (path_of player_id) of
        None \<Rightarrow> Inr False
      | Some grant \<Rightarrow> if grant_valid_shape grant then Inr True else Inl ErrInvalidRecord)"

definition invitation_target_read :: "string \<Rightarrow> beta_db \<Rightarrow> beta_error + invitation_target" where
  "invitation_target_read request_id db =
     (if \<not> opaque_request_id request_id then Inl ErrInvalidRecord
      else bind_res (ok_or ErrNotFound (bt_get (db_requests db) request_id)) (\<lambda>document.
        bind_res (into_request document request_id) (\<lambda>request.
          if br_status request = RequestPending then Inr TargetNotIssued
          else bind_res (ok_or ErrInvalidRecord (rd_invitation_id document)) (\<lambda>invitation_id.
            bind_res (ok_or ErrInvalidRecord (bt_get (db_invitations db) invitation_id)) (\<lambda>invitation.
              if \<not> valid_shape invitation \<or> si_id invitation \<noteq> invitation_id \<or>
                 si_request_id invitation \<noteq> request_id \<or> si_email invitation \<noteq> br_email request \<or>
                 Some (si_status invitation) \<noteq> br_invitation_status request \<or>
                 Some (si_delivery_status invitation) \<noteq> br_delivery_status request \<or>
                 si_delivery_retryable invitation \<noteq> br_delivery_retryable request
              then Inl ErrInvalidRecord
              else Inr (TargetInvitation invitation))))))"

definition begin_retry_tx :: "string \<Rightarrow> string \<Rightarrow> nat \<Rightarrow> retry_commit transaction" where
  "begin_retry_tx invitation_id request_id expected_attempt db =
     (if \<not> opaque_request_id request_id then Inl ErrInvalidRecord
      else (case (bt_get (db_requests db) request_id, bt_get (db_invitations db) invitation_id) of
        (Some request, Some invitation) \<Rightarrow>
          bind_res (into_request request request_id) (\<lambda>_.
            if \<not> valid_shape invitation \<or> si_id invitation \<noteq> invitation_id \<or>
               si_request_id invitation \<noteq> request_id \<or>
               rd_invitation_id request \<noteq> Some invitation_id \<or>
               rd_invitation_status request \<noteq> Some (si_status invitation) \<or>
               rd_delivery_status request \<noteq> Some (si_delivery_status invitation) \<or>
               rd_delivery_retryable request \<noteq> si_delivery_retryable invitation
            then Inl ErrInvalidRecord
            else (case si_status invitation of
               Revoked \<Rightarrow> rollback RetryRevoked
             | Redeemed \<Rightarrow> rollback RetryRedeemed
             | Issued \<Rightarrow>
                 if si_delivery_attempt invitation \<noteq> expected_attempt \<or>
                    si_delivery_status invitation \<noteq> DeliveryFailed \<or>
                    si_delivery_retryable invitation \<noteq> Some True
                 then rollback RetryNotRetryable
                 else bind_res (ok_or ErrInvalidRecord (checked_add u32_max (si_delivery_attempt invitation) 1))
                   (\<lambda>attempt.
                     let invitation' = invitation\<lparr>si_delivery_attempt := attempt,
                           si_delivery_status := DeliveryPending, si_delivery_retryable := None,
                           si_provider_message_id := None\<rparr>;
                         request' = request\<lparr>rd_delivery_status := Some DeliveryPending,
                           rd_delivery_retryable := None\<rparr>
                     in Inr ([UpdateRequest request_id request', UpdateInvitation invitation_id invitation'],
                             RetryStarted attempt))))
      | _ \<Rightarrow> Inl ErrInvalidRecord))"

definition commit_grant_tx :: "stored_invitation \<Rightarrow> grant_commit transaction" where
  "commit_grant_tx invitation db =
     (if \<not> valid_shape invitation \<or> \<not> opaque_request_id (si_request_id invitation) then Inl ErrInvalidRecord
      else (case bt_get (db_requests db) (si_request_id invitation) of
        None \<Rightarrow> Inl ErrNotFound
      | Some request \<Rightarrow>
          bind_res (into_request request (si_request_id invitation)) (\<lambda>projection.
            if br_status projection = RequestGranted then rollback GrantAlreadyGranted
            else if br_email projection \<noteq> si_email invitation then Inl ErrInvalidRecord
            else (let request' = request\<lparr>rd_status := RequestGranted,
                        rd_delivery_status := Some DeliveryPending, rd_delivery_retryable := None,
                        rd_invitation_id := Some (si_id invitation), rd_invitation_status := Some Issued\<rparr>
                  in Inr ([UpdateRequest (si_request_id invitation) request',
                           CreateInvitation (si_id invitation) invitation,
                           CreateLookup (si_lookup_id invitation) (lookup_new invitation)],
                          GrantIssued)))))"

definition record_delivery_tx :: "string \<Rightarrow> string \<Rightarrow> nat \<Rightarrow> delivery_attempt \<Rightarrow> unit transaction" where
  "record_delivery_tx invitation_id request_id delivery_attempt attempt db =
     (if \<not> opaque_request_id request_id then Inl ErrInvalidRecord
      else (case (bt_get (db_requests db) request_id, bt_get (db_invitations db) invitation_id) of
        (Some request, Some invitation) \<Rightarrow>
          bind_res (into_request request request_id) (\<lambda>_.
            if \<not> valid_shape invitation \<or> si_request_id invitation \<noteq> request_id \<or>
               si_delivery_attempt invitation \<noteq> delivery_attempt \<or>
               rd_invitation_id request \<noteq> Some invitation_id \<or>
               rd_invitation_status request \<noteq> Some (si_status invitation) \<or>
               rd_delivery_status request \<noteq> Some DeliveryPending \<or> rd_delivery_retryable request \<noteq> None \<or>
               si_delivery_status invitation \<noteq> DeliveryPending
            then Inl ErrInvalidRecord
            else (let status = attempt_status attempt;
                      (retryable, message_id) = attempt_metadata attempt;
                      invitation' = invitation\<lparr>si_delivery_status := status,
                        si_delivery_retryable := retryable, si_provider_message_id := message_id\<rparr>;
                      request' = request\<lparr>rd_delivery_status := Some status, rd_delivery_retryable := retryable\<rparr>
                  in if \<not> valid_shape invitation' then Inl ErrInvalidRecord
                     else Inr ([UpdateRequest request_id request', UpdateInvitation invitation_id invitation'], ())))
      | _ \<Rightarrow> Inl ErrInvalidRecord))"

definition revoke_tx :: "string \<Rightarrow> revoke_result transaction" where
  "revoke_tx request_id db =
     (if \<not> opaque_request_id request_id then Inl ErrInvalidRecord
      else (case bt_get (db_requests db) request_id of
        None \<Rightarrow> Inl ErrNotFound
      | Some request \<Rightarrow>
          bind_res (into_request request request_id) (\<lambda>projection.
            if br_status projection = RequestPending then rollback RevokeNotIssued
            else bind_res (ok_or ErrInvalidRecord (rd_invitation_id request)) (\<lambda>invitation_id.
              case bt_get (db_invitations db) invitation_id of
                None \<Rightarrow> Inl ErrInvalidRecord
              | Some invitation \<Rightarrow>
                  if \<not> valid_shape invitation \<or> si_id invitation \<noteq> invitation_id \<or>
                     si_request_id invitation \<noteq> request_id \<or> si_email invitation \<noteq> br_email projection \<or>
                     rd_invitation_status request \<noteq> Some (si_status invitation) \<or>
                     rd_delivery_status request \<noteq> Some (si_delivery_status invitation) \<or>
                     rd_delivery_retryable request \<noteq> si_delivery_retryable invitation
                  then Inl ErrInvalidRecord
                  else (case si_status invitation of
                     Revoked \<Rightarrow> rollback RevokeAlreadyRevoked
                   | Redeemed \<Rightarrow> rollback RevokeAlreadyRedeemed
                   | Issued \<Rightarrow>
                       Inr ([UpdateRequest request_id (request\<lparr>rd_invitation_status := Some Revoked\<rparr>),
                             UpdateInvitation invitation_id (invitation\<lparr>si_status := Revoked\<rparr>)],
                            RevokeDone))))))"

definition revoke_access_tx :: "(string \<Rightarrow> string) \<Rightarrow> string \<Rightarrow> access_revoke_result transaction" where
  "revoke_access_tx path_of request_id db =
     (if \<not> opaque_request_id request_id then Inl ErrInvalidRecord
      else (case bt_get (db_requests db) request_id of
        None \<Rightarrow> Inl ErrNotFound
      | Some request \<Rightarrow>
          bind_res (into_request request request_id) (\<lambda>projection.
            if br_invitation_status projection \<noteq> Some Redeemed then rollback AccessRevokeNotGranted
            else bind_res (ok_or ErrInvalidRecord (rd_invitation_id request)) (\<lambda>invitation_id.
              bind_res (ok_or ErrInvalidRecord (bt_get (db_invitations db) invitation_id)) (\<lambda>invitation.
                bind_res (ok_or ErrInvalidRecord (si_redeemed_by invitation)) (\<lambda>player_id.
                  if \<not> valid_shape invitation \<or> si_id invitation \<noteq> invitation_id \<or>
                     si_request_id invitation \<noteq> request_id \<or> si_email invitation \<noteq> br_email projection \<or>
                     si_status invitation \<noteq> Redeemed \<or>
                     rd_invitation_status request \<noteq> Some (si_status invitation) \<or>
                     rd_delivery_status request \<noteq> Some (si_delivery_status invitation) \<or>
                     rd_delivery_retryable request \<noteq> si_delivery_retryable invitation
                  then Inl ErrInvalidRecord
                  else (let grant_path = path_of player_id;
                            grant = bt_get (db_grants db) grant_path
                        in if br_access_status projection = Some AccessRevoked then
                             (if grant = None then rollback AccessRevokeAlready else Inl ErrInvalidRecord)
                           else (let request_write = UpdateRequest request_id
                                       (request\<lparr>rd_access_status := Some AccessRevoked\<rparr>)
                                 in case grant of
                                      None \<Rightarrow> Inr ([request_write], AccessRevokeAlready)
                                    | Some g \<Rightarrow>
                                        if \<not> grants_invitation g invitation_id then Inl ErrInvalidRecord
                                        else Inr ([request_write, DeleteGrant grant_path], AccessRevokeDone)))))))))"

end
