(* ===== verification/BetaRedemption.thy ===== *)
theory BetaRedemption
  imports BetaStore
begin

text \<open>
  Redemption, the administrator's list, and the retry loop around every transaction
  (\<open>beta_access/firestore.rs\<close>, \<open>firestore/redemption.rs\<close>).
\<close>

section \<open>Redemption\<close>

definition lookup_redemption_target :: "string \<Rightarrow> beta_db \<Rightarrow> beta_error + redemption_target" where
  "lookup_redemption_target lookup_id db =
     (if \<not> opaque_identifier lookup_id 64 then Inr RedeemInvalid
      else (case bt_get (db_lookups db) lookup_id of
        None \<Rightarrow> Inr RedeemInvalid
      | Some lookup \<Rightarrow>
          if \<not> lookup_valid_for lookup lookup_id then Inl ErrInvalidRecord
          else bind_res (ok_or ErrInvalidRecord (bt_get (db_invitations db) (lk_invitation_id lookup))) (\<lambda>invitation.
            bind_res (ok_or ErrInvalidRecord (bt_get (db_requests db) (si_request_id invitation))) (\<lambda>request.
              bind_res (into_request request (si_request_id invitation)) (\<lambda>projection.
                if \<not> valid_shape invitation \<or> si_id invitation \<noteq> lk_invitation_id lookup \<or>
                   si_lookup_id invitation \<noteq> lookup_id \<or> si_created_at invitation \<noteq> lk_created_at lookup \<or>
                   br_email projection \<noteq> si_email invitation \<or> br_status projection \<noteq> RequestGranted \<or>
                   rd_invitation_id request \<noteq> Some (si_id invitation) \<or>
                   rd_invitation_status request \<noteq> Some (si_status invitation) \<or>
                   rd_delivery_status request \<noteq> Some (si_delivery_status invitation) \<or>
                   rd_delivery_retryable request \<noteq> si_delivery_retryable invitation
                then Inl ErrInvalidRecord
                else (case si_status invitation of
                   Issued \<Rightarrow> Inr (RedeemCandidate invitation)
                 | Revoked \<Rightarrow> Inr RedeemRevoked
                 | Redeemed \<Rightarrow> Inr RedeemAlreadyHandled))))))"

definition redemption_target_tx :: "redemption_attempt \<Rightarrow> redemption_target transaction" where
  "redemption_target_tx a db =
     (let player_path = ''redemption-player-'' @ ra_player_rate_key a;
          ip_path = ''redemption-ip-'' @ ra_ip_rate_key a;
          player_limit = bt_get (db_limits db) player_path;
          ip_limit = bt_get (db_limits db) ip_path
      in bind_res (limit_state player_limit) (\<lambda>player_current.
        let (player_state, player_allowed) =
              rate_limit_consume player_current REDEMPTION_PLAYER_ATTEMPT_LIMIT (ra_now a)
        in bind_res (limit_state ip_limit) (\<lambda>ip_current.
          let (ip_state, ip_allowed) = rate_limit_consume ip_current REDEMPTION_IP_ATTEMPT_LIMIT (ra_now a)
          in if \<not> player_allowed \<or> \<not> ip_allowed then rollback RedeemRateLimited
             else (let writes = [rate_limit_write player_path (player_limit \<noteq> None) player_state,
                                 rate_limit_write ip_path (ip_limit \<noteq> None) ip_state]
                   in bind_res (case ra_lookup_id a of
                        Some lookup_id \<Rightarrow> lookup_redemption_target lookup_id db
                      | None \<Rightarrow> Inr RedeemInvalid) (\<lambda>outcome. Inr (writes, outcome))))))"

definition commit_redemption_tx ::
  "(string \<Rightarrow> string) \<Rightarrow> redemption_candidate \<Rightarrow> string \<Rightarrow> int \<Rightarrow> redemption_commit transaction" where
  "commit_redemption_tx path_of c player_id now db =
     (case (bt_get (db_lookups db) (rc_lookup_id c), bt_get (db_invitations db) (rc_invitation_id c),
            bt_get (db_requests db) (rc_request_id c)) of
        (Some lookup, Some invitation, Some request) \<Rightarrow>
          (let grant = bt_get (db_grants db) (path_of player_id)
           in if (case grant of None \<Rightarrow> False | Some g \<Rightarrow> \<not> grant_valid_shape g) then Inl ErrInvalidRecord
              else bind_res (into_request request (rc_request_id c)) (\<lambda>projection.
                if \<not> lookup_valid_for lookup (rc_lookup_id c) \<or> lk_invitation_id lookup \<noteq> rc_invitation_id c \<or>
                   \<not> valid_shape invitation \<or> si_id invitation \<noteq> rc_invitation_id c \<or>
                   si_authenticator invitation \<noteq> rc_authenticator c \<or> si_email invitation \<noteq> rc_email c \<or>
                   si_lookup_id invitation \<noteq> rc_lookup_id c \<or> si_request_id invitation \<noteq> rc_request_id c \<or>
                   si_created_at invitation \<noteq> lk_created_at lookup \<or>
                   br_email projection \<noteq> rc_email c \<or> br_status projection \<noteq> RequestGranted \<or>
                   rd_invitation_id request \<noteq> Some (rc_invitation_id c) \<or>
                   rd_invitation_status request \<noteq> Some (si_status invitation) \<or>
                   rd_delivery_status request \<noteq> Some (si_delivery_status invitation) \<or>
                   rd_delivery_retryable request \<noteq> si_delivery_retryable invitation
                then Inl ErrInvalidRecord
                else (case si_status invitation of
                   Revoked \<Rightarrow> rollback CommitRevoked
                 | Redeemed \<Rightarrow> rollback CommitAlreadyHandled
                 | Issued \<Rightarrow>
                     if grant \<noteq> None then rollback CommitAlreadyHandled
                     else (let invitation' = invitation\<lparr>si_status := Redeemed, si_redeemed_at := Some now,
                                 si_redeemed_by := Some player_id\<rparr>;
                               request' = request\<lparr>rd_invitation_status := Some Redeemed,
                                 rd_access_status := Some AccessActive\<rparr>
                           in if \<not> valid_shape invitation' then Inl ErrInvalidRecord
                              else Inr ([UpdateInvitation (rc_invitation_id c) invitation',
                                         UpdateRequest (rc_request_id c) request',
                                         CreateGrant (path_of player_id) (grant_new (rc_invitation_id c) now)],
                                        CommitGranted)))))
      | _ \<Rightarrow> Inl ErrInvalidRecord)"

section \<open>The administrator's list\<close>

text \<open>The two collections are listed one after the other, outside a transaction: the invitations may
  be those of a later database than the requests.\<close>

definition admin_entry :: "beta_db \<Rightarrow> beta_request \<times> string option \<Rightarrow> beta_error + admin_request" where
  "admin_entry later entry =
     bind_res (if br_invitation_status (fst entry) = Some Redeemed
         then bind_res (ok_or ErrInvalidRecord (snd entry)) (\<lambda>i.
           bind_res (ok_or ErrInvalidRecord (bt_get (db_invitations later) i)) (\<lambda>invitation.
             if si_id invitation \<noteq> i then Inl ErrInvalidRecord else Inr (Some invitation)))
         else Inr None)
       (admin_request_new (fst entry))"

definition request_entries :: "beta_db \<Rightarrow> beta_error + (beta_request \<times> string option) list" where
  "request_entries db = collect_res (map (\<lambda>(i, document).
     bind_res (into_request document i) (\<lambda>request. Inr (request, rd_invitation_id document)))
     (db_requests db))"

definition has_redeemed :: "(beta_request \<times> string option) list \<Rightarrow> bool" where
  "has_redeemed entries = list_ex (\<lambda>entry. br_invitation_status (fst entry) = Some Redeemed) entries"

definition list_requests :: "beta_db \<Rightarrow> beta_db \<Rightarrow> beta_error + admin_request list" where
  "list_requests db later =
     bind_res (request_entries db) (\<lambda>entries.
       if \<not> has_redeemed entries
       then collect_res (map (\<lambda>entry. admin_request_new (fst entry) None) entries)
       else collect_res (map (admin_entry later) entries))"

section \<open>The retry loop\<close>

definition MAX_TRANSACTION_ATTEMPTS :: nat where "MAX_TRANSACTION_ATTEMPTS = 4"

text \<open>What the database does with one attempt: nothing goes wrong, it fails without effect, or its
  commit takes effect but is reported as failed.\<close>

datatype fault = NoFault | FailsWith beta_error | UnreportedCommit beta_error

definition run_transaction :: "'r transaction \<Rightarrow> beta_db \<Rightarrow> beta_db \<times> (beta_error + 'r)" where
  "run_transaction tx db =
     (case tx db of
        Inl e \<Rightarrow> (db, Inl e)
      | Inr (writes, r) \<Rightarrow>
          (case apply_writes writes db of Inl e \<Rightarrow> (db, Inl e) | Inr db' \<Rightarrow> (db', Inr r)))"

fun run_attempt :: "fault \<Rightarrow> 'r transaction \<Rightarrow> beta_db \<Rightarrow> beta_db \<times> (beta_error + 'r)" where
  "run_attempt NoFault tx db = run_transaction tx db"
| "run_attempt (FailsWith e) tx db = (db, Inl e)"
| "run_attempt (UnreportedCommit e) tx db = (fst (run_transaction tx db), Inl e)"

text \<open>The loop over the attempts. The list holds, for each of the remaining ones, what other tasks do to
  the database before it and what the database does with it.\<close>

type_synonym attempt = "(beta_db \<Rightarrow> beta_db) \<times> fault"

fun retry_transaction :: "attempt list \<Rightarrow> 'r transaction \<Rightarrow> beta_db \<Rightarrow> beta_db \<times> (beta_error + 'r)" where
  "retry_transaction [] tx db = (db, Inl ErrConflict)"
| "retry_transaction ((others, f) # fs) tx db =
     (let (db', result) = run_attempt f tx (others db)
      in if result = Inl ErrConflict \<and> fs \<noteq> [] then retry_transaction fs tx db' else (db', result))"

section \<open>The operations of the store\<close>

definition store_begin_retry :: "attempt list \<Rightarrow> string \<Rightarrow> string \<Rightarrow> nat \<Rightarrow> beta_db \<Rightarrow> beta_db \<times> (beta_error + retry_commit)" where
  [simp]: "store_begin_retry attempts invitation_id request_id n = retry_transaction attempts (begin_retry_tx invitation_id request_id n)"

definition store_commit_grant :: "attempt list \<Rightarrow> stored_invitation \<Rightarrow> beta_db \<Rightarrow> beta_db \<times> (beta_error + grant_commit)" where
  [simp]: "store_commit_grant attempts invitation = retry_transaction attempts (commit_grant_tx invitation)"

definition store_commit_redemption :: "attempt list \<Rightarrow> (string \<Rightarrow> string) \<Rightarrow> redemption_candidate \<Rightarrow> string \<Rightarrow> int \<Rightarrow> beta_db \<Rightarrow> beta_db \<times> (beta_error + redemption_commit)" where
  [simp]: "store_commit_redemption attempts path_of c player_id now = retry_transaction attempts (commit_redemption_tx path_of c player_id now)"

definition store_record_delivery :: "attempt list \<Rightarrow> string \<Rightarrow> string \<Rightarrow> nat \<Rightarrow> delivery_attempt \<Rightarrow> beta_db \<Rightarrow> beta_db \<times> (beta_error + unit)" where
  [simp]: "store_record_delivery attempts invitation_id request_id n a = retry_transaction attempts (record_delivery_tx invitation_id request_id n a)"

definition store_redemption_target :: "attempt list \<Rightarrow> redemption_attempt \<Rightarrow> beta_db \<Rightarrow> beta_db \<times> (beta_error + redemption_target)" where
  [simp]: "store_redemption_target attempts a = retry_transaction attempts (redemption_target_tx a)"

definition store_revoke :: "attempt list \<Rightarrow> string \<Rightarrow> beta_db \<Rightarrow> beta_db \<times> (beta_error + revoke_result)" where
  [simp]: "store_revoke attempts request_id = retry_transaction attempts (revoke_tx request_id)"

definition store_revoke_access :: "attempt list \<Rightarrow> (string \<Rightarrow> string) \<Rightarrow> string \<Rightarrow> beta_db \<Rightarrow> beta_db \<times> (beta_error + access_revoke_result)" where
  [simp]: "store_revoke_access attempts path_of request_id = retry_transaction attempts (revoke_access_tx path_of request_id)"

definition store_submit :: "attempt list \<Rightarrow> submission \<Rightarrow> beta_db \<Rightarrow> beta_db \<times> (beta_error + store_outcome)" where
  [simp]: "store_submit attempts s = retry_transaction attempts (submit_tx s)"

section \<open>Lemmas\<close>

lemma run_transaction_cases:
  assumes "run_transaction tx db = (db', r)"
  obtains (failed) e where "db' = db" and "r = Inl e"
  | (committed) ws x where "tx db = Inr (ws, x)" and "apply_writes ws db = Inr db'" and "r = Inr x"
  using assms by (auto simp: run_transaction_def split: sum.splits prod.splits)

lemma run_attempt_db: "fst (run_attempt f tx db) \<in> {db, fst (run_transaction tx db)}"
  by (cases f) simp_all

text \<open>An invariant kept by every committed transaction and by the other tasks is kept by the retry
  loop, whatever the database does.\<close>

lemma retry_transaction_preserves:
  assumes "\<And>f d. P d \<Longrightarrow> P (fst (run_attempt f tx d))"
    and "\<forall>(others, f)\<in>set attempts. \<forall>d. P d \<longrightarrow> P (others d)" and "P db"
  shows "P (fst (retry_transaction attempts tx db))"
  using assms(2,3)
proof (induction attempts arbitrary: db)
  case (Cons a attempts)
  obtain others f where a: "a = (others, f)" by (cases a)
  have "P (fst (run_attempt f tx (others db)))" using assms(1) Cons.prems a by auto
  then show ?case using Cons a by (auto simp: Let_def split: prod.splits)
qed simp

text \<open>A result reported by the loop is that of one transaction committed against the database of its
  moment.\<close>

lemma retry_transaction_result:
  assumes "retry_transaction attempts tx db = (db', Inr x)"
    and "\<forall>(others, f)\<in>set attempts. \<forall>d. P d \<longrightarrow> P (others d)"
    and "\<And>f d. P d \<Longrightarrow> P (fst (run_attempt f tx d))" and "P db"
  shows "\<exists>d ws. P d \<and> tx d = Inr (ws, x) \<and> apply_writes ws d = Inr db'"
  using assms(1,2,4)
proof (induction attempts arbitrary: db)
  case (Cons a attempts)
  obtain others f where a: "a = (others, f)" by (cases a)
  obtain d r where r: "run_attempt f tx (others db) = (d, r)" by (cases "run_attempt f tx (others db)")
  have "P (others db)" using Cons.prems a by auto
  then have "P d" using assms(3) [of "others db" f] r by simp
  show ?case
  proof (cases "r = Inl ErrConflict \<and> attempts \<noteq> []")
    case True
    then show ?thesis using Cons \<open>P d\<close> a r by auto
  next
    case False
    then have "d = db'" "r = Inr x" using Cons.prems(1) a r by auto
    then have "run_transaction tx (others db) = (db', Inr x)" using r by (cases f) auto
    then show ?thesis using \<open>P (others db)\<close> by (auto elim!: run_transaction_cases)
  qed
qed simp

end
