(* ===== verification/BetaInvariant.thy ===== *)
theory BetaInvariant
  imports BetaRedemption
begin

text \<open>
  The consistency of the Beta Access database. Requests and invitations are linked one to one and
  agree on every field they share, lookups point at their invitation, and the access grants are
  exactly those of the redeemed invitations whose access has not been revoked. Every transaction
  keeps it.
\<close>

section \<open>The invariant\<close>

definition doc_ok :: "string \<Rightarrow> request_doc \<Rightarrow> bool" where
  "doc_ok rid doc \<longleftrightarrow> (\<exists>r. into_request doc rid = Inr r)"

definition linked :: "string \<Rightarrow> request_doc \<Rightarrow> string \<Rightarrow> stored_invitation \<Rightarrow> bool" where
  "linked rid doc iid ivt \<longleftrightarrow> valid_shape ivt \<and> si_id ivt = iid \<and> si_request_id ivt = rid \<and>
     as_str (si_email ivt) = rd_email doc \<and> rd_invitation_status doc = Some (si_status ivt) \<and>
     rd_delivery_status doc = Some (si_delivery_status ivt) \<and>
     rd_delivery_retryable doc = si_delivery_retryable ivt"

definition base_ok :: "beta_db \<Rightarrow> bool" where
  "base_ok db \<longleftrightarrow>
     (\<forall>rid doc. bt_get (db_requests db) rid = Some doc \<longrightarrow> doc_ok rid doc \<and>
        (\<forall>iid. rd_invitation_id doc = Some iid \<longrightarrow>
           (\<exists>ivt. bt_get (db_invitations db) iid = Some ivt \<and> linked rid doc iid ivt))) \<and>
     (\<forall>iid ivt. bt_get (db_invitations db) iid = Some ivt \<longrightarrow>
        (\<exists>doc. bt_get (db_requests db) (si_request_id ivt) = Some doc \<and> rd_invitation_id doc = Some iid) \<and>
        bt_get (db_lookups db) (si_lookup_id ivt) = Some (lookup_new ivt)) \<and>
     (\<forall>lid l. bt_get (db_lookups db) lid = Some l \<longrightarrow>
        (\<exists>ivt. bt_get (db_invitations db) (lk_invitation_id l) = Some ivt \<and> si_lookup_id ivt = lid)) \<and>
     (\<forall>k d. bt_get (db_limits db) k = Some d \<longrightarrow> (\<exists>s. limit_into_state d = Inr s))"

definition active :: "beta_db \<Rightarrow> stored_invitation \<Rightarrow> string \<Rightarrow> bool" where
  "active db ivt p \<longleftrightarrow> si_status ivt = Redeemed \<and> si_redeemed_by ivt = Some p \<and>
     (\<exists>doc. bt_get (db_requests db) (si_request_id ivt) = Some doc \<and> rd_access_status doc \<noteq> Some AccessRevoked)"

definition grants_ok :: "(string \<Rightarrow> string) \<Rightarrow> beta_db \<Rightarrow> bool" where
  "grants_ok H db \<longleftrightarrow>
     (\<forall>path g. bt_get (db_grants db) path = Some g \<longrightarrow> grant_valid_shape g \<and>
        (\<exists>ivt p. bt_get (db_invitations db) (gd_invitation_id g) = Some ivt \<and> active db ivt p \<and> H p = path)) \<and>
     (\<forall>iid ivt p. bt_get (db_invitations db) iid = Some ivt \<longrightarrow> active db ivt p \<longrightarrow>
        (\<exists>g. bt_get (db_grants db) (H p) = Some g \<and> gd_invitation_id g = iid))"

definition db_ok :: "(string \<Rightarrow> string) \<Rightarrow> beta_db \<Rightarrow> bool" where
  "db_ok H db \<longleftrightarrow> base_ok db \<and> grants_ok H db"

lemma empty_db_ok: "db_ok H empty_db"
  by (simp add: db_ok_def base_ok_def grants_ok_def empty_db_def)

section \<open>Consequences\<close>

lemma base_request:
  assumes "base_ok db" and "bt_get (db_requests db) rid = Some doc"
  shows "doc_ok rid doc"
    and "rd_invitation_id doc = Some iid \<Longrightarrow>
      \<exists>ivt. bt_get (db_invitations db) iid = Some ivt \<and> linked rid doc iid ivt"
  using assms unfolding base_ok_def by blast+

lemma base_invitation:
  assumes "base_ok db" and "bt_get (db_invitations db) iid = Some ivt"
  shows "\<exists>doc. bt_get (db_requests db) (si_request_id ivt) = Some doc \<and> rd_invitation_id doc = Some iid \<and>
      linked (si_request_id ivt) doc iid ivt"
    and "bt_get (db_lookups db) (si_lookup_id ivt) = Some (lookup_new ivt)"
proof -
  show "bt_get (db_lookups db) (si_lookup_id ivt) = Some (lookup_new ivt)"
    using assms unfolding base_ok_def by blast
  obtain doc where d: "bt_get (db_requests db) (si_request_id ivt) = Some doc" "rd_invitation_id doc = Some iid"
    using assms unfolding base_ok_def by blast
  then obtain ivt' where "bt_get (db_invitations db) iid = Some ivt'" "linked (si_request_id ivt) doc iid ivt'"
    using base_request(2) [OF assms(1) d(1) d(2)] by blast
  with assms(2) d show "\<exists>doc. bt_get (db_requests db) (si_request_id ivt) = Some doc \<and>
      rd_invitation_id doc = Some iid \<and> linked (si_request_id ivt) doc iid ivt" by auto
qed

lemma base_lookup:
  assumes "base_ok db" and "bt_get (db_lookups db) lid = Some l"
  shows "\<exists>ivt. bt_get (db_invitations db) (lk_invitation_id l) = Some ivt \<and> si_lookup_id ivt = lid \<and> l = lookup_new ivt"
proof -
  obtain ivt where i: "bt_get (db_invitations db) (lk_invitation_id l) = Some ivt" "si_lookup_id ivt = lid"
    using assms unfolding base_ok_def by blast
  with base_invitation(2) [OF assms(1) i(1)] assms(2) show ?thesis by auto
qed

lemma into_request_Inr:
  "into_request doc rid = Inr r \<longleftrightarrow>
   parse_email (text_of (rd_email doc)) = Inr (br_email r) \<and> rd_schema_version doc = SCHEMA_VERSION \<and>
   as_str (br_email r) = rd_email doc \<and> opaque_request_id rid \<and> valid_invitation_projection doc \<and>
   br_id r = rid \<and> br_status r = rd_status doc \<and> br_created_at r = rd_created_at doc \<and>
   br_delivery_status r = rd_delivery_status doc \<and> br_delivery_retryable r = rd_delivery_retryable doc \<and>
   br_invitation_status r = rd_invitation_status doc \<and>
   br_access_status r = (case rd_invitation_status doc of
      Some Redeemed \<Rightarrow> Some (case rd_access_status doc of None \<Rightarrow> AccessActive | Some a \<Rightarrow> a) | _ \<Rightarrow> None)"
  by (cases r) (auto simp: into_request_def split: sum.splits if_splits)

lemma doc_ok_iff:
  "doc_ok rid doc \<longleftrightarrow> (\<exists>e. parse_email (text_of (rd_email doc)) = Inr e \<and> as_str e = rd_email doc) \<and>
   rd_schema_version doc = SCHEMA_VERSION \<and> opaque_request_id rid \<and> valid_invitation_projection doc"
  by (auto simp: doc_ok_def into_request_def split: sum.splits if_splits)

section \<open>Updating a linked pair\<close>

text \<open>\<open>pair_update\<close> says that \<open>db'\<close> differs from \<open>db\<close> in one request and its invitation only.\<close>

definition pair_update ::
  "beta_db \<Rightarrow> string \<Rightarrow> request_doc \<Rightarrow> string \<Rightarrow> stored_invitation \<Rightarrow> beta_db \<Rightarrow> bool" where
  "pair_update db rid doc iid ivt db' \<longleftrightarrow>
     (\<forall>k. bt_get (db_requests db') k = (if k = rid then Some doc else bt_get (db_requests db) k)) \<and>
     (\<forall>k. bt_get (db_invitations db') k = (if k = iid then Some ivt else bt_get (db_invitations db) k)) \<and>
     db_lookups db' = db_lookups db \<and> db_limits db' = db_limits db"

lemma pair_update_base:
  assumes ok: "base_ok db" and old: "bt_get (db_requests db) rid = Some doc0" "rd_invitation_id doc0 = Some iid"
      "bt_get (db_invitations db) iid = Some inv0"
    and new: "doc_ok rid doc" "rd_invitation_id doc = Some iid" "linked rid doc iid ivt"
      "si_lookup_id ivt = si_lookup_id inv0" "lookup_new ivt = lookup_new inv0"
    and upd: "pair_update db rid doc iid ivt db'"
  shows "base_ok db'"
proof -
  have rid0: "si_request_id inv0 = rid"
    using base_request(2) [OF ok old(1,2)] old(3) by (auto simp: linked_def)
  have rid: "si_request_id ivt = rid" using new(3) by (simp add: linked_def)
  have req: "bt_get (db_requests db') k = (if k = rid then Some doc else bt_get (db_requests db) k)"
    and invn: "bt_get (db_invitations db') k = (if k = iid then Some ivt else bt_get (db_invitations db) k)"
    and same: "db_lookups db' = db_lookups db" "db_limits db' = db_limits db" for k
    using upd by (auto simp: pair_update_def)
  have 1: "doc_ok k d \<and> (\<forall>i. rd_invitation_id d = Some i \<longrightarrow>
      (\<exists>v. bt_get (db_invitations db') i = Some v \<and> linked k d i v))"
    if "bt_get (db_requests db') k = Some d" for k d
  proof (cases "k = rid")
    case True
    then show ?thesis using that new req invn by auto
  next
    case False
    then have d: "bt_get (db_requests db) k = Some d" using that req by simp
    have "i \<noteq> iid" if "rd_invitation_id d = Some i" for i
      using base_request(2) [OF ok d that] old(3) rid0 False by (auto simp: linked_def)
    then show ?thesis using base_request [OF ok d] invn by auto
  qed
  have 2: "(\<exists>d. bt_get (db_requests db') (si_request_id v) = Some d \<and> rd_invitation_id d = Some i) \<and>
      bt_get (db_lookups db) (si_lookup_id v) = Some (lookup_new v)"
    if v: "bt_get (db_invitations db') i = Some v" for i v
  proof (cases "i = iid")
    case True
    then show ?thesis using v invn [of i] req rid new(2,4,5) base_invitation(2) [OF ok old(3)] by auto
  next
    case False
    then have v0: "bt_get (db_invitations db) i = Some v" using v invn by simp
    obtain d where "bt_get (db_requests db) (si_request_id v) = Some d" "rd_invitation_id d = Some i"
      using base_invitation(1) [OF ok v0] by blast
    then show ?thesis using req False old(1,2) base_invitation(2) [OF ok v0] by auto
  qed
  have 3: "\<exists>v. bt_get (db_invitations db') (lk_invitation_id l) = Some v \<and> si_lookup_id v = lid"
    if "bt_get (db_lookups db) lid = Some l" for lid l
    using base_lookup [OF ok that] invn new(4) old(3) by auto
  have 4: "\<forall>k d. bt_get (db_limits db) k = Some d \<longrightarrow> (\<exists>s. limit_into_state d = Inr s)"
    using ok unfolding base_ok_def by blast
  show ?thesis unfolding base_ok_def same using 1 2 3 4 by blast
qed

text \<open>Where the activity of the invitation does not change, the grants stay right.\<close>

lemma pair_update_active:
  assumes ok: "base_ok db" and old: "bt_get (db_requests db) rid = Some doc0" "rd_invitation_id doc0 = Some iid"
    and new: "si_request_id ivt = rid" and upd: "pair_update db rid doc iid ivt db'"
    and v: "bt_get (db_invitations db') i = Some v"
  shows "i \<noteq> iid \<Longrightarrow> active db' v p \<longleftrightarrow> active db v p"
    and "i = iid \<Longrightarrow> active db' v p \<longleftrightarrow> si_status ivt = Redeemed \<and> si_redeemed_by ivt = Some p \<and>
      rd_access_status doc \<noteq> Some AccessRevoked"
proof -
  have req: "bt_get (db_requests db') k = (if k = rid then Some doc else bt_get (db_requests db) k)"
    and invn: "bt_get (db_invitations db') k = (if k = iid then Some ivt else bt_get (db_invitations db) k)" for k
    using upd by (auto simp: pair_update_def)
  show "active db' v p \<longleftrightarrow> active db v p" if ne: "i \<noteq> iid"
  proof -
    have v0: "bt_get (db_invitations db) i = Some v" using v invn ne by simp
    have "si_request_id v \<noteq> rid"
      using base_invitation(1) [OF ok v0] old ne by auto
    then show ?thesis by (simp add: active_def req)
  qed
  show "active db' v p \<longleftrightarrow> si_status ivt = Redeemed \<and> si_redeemed_by ivt = Some p \<and>
      rd_access_status doc \<noteq> Some AccessRevoked" if "i = iid"
    using that v invn [of i] new by (auto simp: active_def req)
qed

lemma pair_update_grants:
  assumes ok: "base_ok db" "grants_ok H db"
    and old: "bt_get (db_requests db) rid = Some doc0" "rd_invitation_id doc0 = Some iid"
      "bt_get (db_invitations db) iid = Some inv0"
    and new: "si_request_id ivt = rid" "si_request_id inv0 = rid"
      "\<And>p. (si_status ivt = Redeemed \<and> si_redeemed_by ivt = Some p \<and> rd_access_status doc \<noteq> Some AccessRevoked)
         \<longleftrightarrow> active db inv0 p"
    and upd: "pair_update db rid doc iid ivt db'" and grants: "db_grants db' = db_grants db"
  shows "grants_ok H db'"
proof -
  have invn: "bt_get (db_invitations db') k = (if k = iid then Some ivt else bt_get (db_invitations db) k)" for k
    using upd by (auto simp: pair_update_def)
  have act: "active db' v p \<longleftrightarrow> active db v0 p"
    if "bt_get (db_invitations db') i = Some v" "bt_get (db_invitations db) i = Some v0" for i v v0 p
    using pair_update_active [OF ok(1) old(1,2) new(1) upd that(1)] that new(3) invn [of i] old(3)
    by (cases "i = iid") auto
  have ex: "(\<exists>v. bt_get (db_invitations db') i = Some v) \<longleftrightarrow> (\<exists>v. bt_get (db_invitations db) i = Some v)" for i
    using invn [of i] old(3) by auto
  show ?thesis
    unfolding grants_ok_def grants
  proof (intro conjI allI impI)
    fix path g assume g: "bt_get (db_grants db) path = Some g"
    then show "grant_valid_shape g" using ok(2) unfolding grants_ok_def by blast
    obtain v p where "bt_get (db_invitations db) (gd_invitation_id g) = Some v" "active db v p" "H p = path"
      using g ok(2) unfolding grants_ok_def by blast
    then show "\<exists>ivt p. bt_get (db_invitations db') (gd_invitation_id g) = Some ivt \<and> active db' ivt p \<and> H p = path"
      using ex act by metis
  next
    fix i v p assume v: "bt_get (db_invitations db') i = Some v" and a: "active db' v p"
    obtain v0 where "bt_get (db_invitations db) i = Some v0" using ex v by blast
    then show "\<exists>g. bt_get (db_grants db) (H p) = Some g \<and> gd_invitation_id g = i"
      using act [OF v] a ok(2) unfolding grants_ok_def by blast
  qed
qed

end
