(* ===== verification/BetaSteps.thy ===== *)
theory BetaSteps
  imports BetaInvariant
begin

text \<open>
  Every Firestore transaction of Beta Access keeps the database consistent.
\<close>

section \<open>Effects of writes\<close>

lemma create_in_Inr: "create_in m k d = Inr d' \<longleftrightarrow> bt_get m k = None \<and> d' = d"
  by (auto simp: create_in_def)

lemma update_in_Inr: "update_in m k d = Inr d' \<longleftrightarrow> bt_get m k \<noteq> None \<and> d' = d"
  by (auto simp: update_in_def)

lemmas write_simps = bind_res_Inr_conv create_in_Inr update_in_Inr

lemma apply_pair:
  assumes "apply_writes [UpdateRequest rid doc, UpdateInvitation iid ivt] db = Inr db'"
  shows "pair_update db rid doc iid ivt db'" and "db_grants db' = db_grants db"
  using assms by (auto simp: write_simps pair_update_def bt_get_insert)

lemma doc_ok_update:
  assumes "doc_ok rid doc" and "rd_email doc' = rd_email doc" and "rd_schema_version doc' = rd_schema_version doc"
    and "valid_invitation_projection doc'"
  shows "doc_ok rid doc'"
  using assms by (simp add: doc_ok_iff)

lemma into_request_doc_ok: "into_request doc rid = Inr r \<Longrightarrow> doc_ok rid doc"
  by (auto simp: doc_ok_def)

lemma linked_projection:
  assumes "doc_ok rid doc" and "rd_invitation_id doc = Some iid"
  shows "rd_status doc = RequestGranted" and "length iid = 32" and "list_all is_lower_hex iid"
  using assms by (auto simp: doc_ok_iff valid_invitation_projection_def split: request_status.splits)

text \<open>A pair whose redemption state is unchanged.\<close>

lemma pair_step_ok:
  assumes ok: "db_ok H db"
    and old: "bt_get (db_requests db) rid = Some doc0" "rd_invitation_id doc0 = Some iid"
      "bt_get (db_invitations db) iid = Some inv0"
    and new: "doc_ok rid doc" "rd_invitation_id doc = Some iid" "linked rid doc iid ivt"
      "si_lookup_id ivt = si_lookup_id inv0" "lookup_new ivt = lookup_new inv0"
      "si_status ivt = Redeemed \<longleftrightarrow> si_status inv0 = Redeemed" "si_redeemed_by ivt = si_redeemed_by inv0"
      "rd_access_status doc = rd_access_status doc0"
    and app: "apply_writes [UpdateRequest rid doc, UpdateInvitation iid ivt] db = Inr db'"
  shows "db_ok H db'"
proof -
  note p = apply_pair [OF app]
  have b: "base_ok db" "grants_ok H db" using ok by (auto simp: db_ok_def)
  have r0: "si_request_id inv0 = rid"
    using base_request(2) [OF b(1) old(1,2)] old(3) by (auto simp: linked_def)
  have r: "si_request_id ivt = rid" using new(3) by (simp add: linked_def)
  have act: "(si_status ivt = Redeemed \<and> si_redeemed_by ivt = Some q \<and> rd_access_status doc \<noteq> Some AccessRevoked)
      \<longleftrightarrow> active db inv0 q" for q
    using new(6,7,8) old(1) r0 by (auto simp: active_def)
  show ?thesis
    unfolding db_ok_def
    using pair_update_base [OF b(1) old new(1-5) p(1)] pair_update_grants [OF b old r r0 act p] by blast
qed

section \<open>Deliveries and revocation\<close>

text \<open>The delivery shape does not depend on the redemption fields.\<close>

lemma delivery_shape_frame [simp]:
  "delivery_shape (i\<lparr>si_status := s\<rparr>) = delivery_shape i"
  "delivery_shape (i\<lparr>si_redeemed_at := t\<rparr>) = delivery_shape i"
  "delivery_shape (i\<lparr>si_redeemed_by := p\<rparr>) = delivery_shape i"
  by (simp_all add: delivery_shape_def cong: delivery_status.case_cong)

lemma status_Issued: "s \<noteq> Revoked \<Longrightarrow> s \<noteq> Redeemed \<Longrightarrow> s = Issued"
  by (cases s) simp_all

lemma begin_retry_cases:
  assumes "begin_retry_tx iid rid n db = Inr (ws, x)" and "ws \<noteq> []"
  obtains doc ivt attempt where "bt_get (db_requests db) rid = Some doc" "bt_get (db_invitations db) iid = Some ivt"
    "doc_ok rid doc" "linked rid doc iid ivt \<or> as_str (si_email ivt) \<noteq> rd_email doc" "rd_invitation_id doc = Some iid"
    "si_status ivt = Issued" "0 < attempt" "x = RetryStarted attempt" "attempt = si_delivery_attempt ivt + 1"
    "ws = [UpdateRequest rid (doc\<lparr>rd_delivery_status := Some DeliveryPending, rd_delivery_retryable := None\<rparr>),
           UpdateInvitation iid (ivt\<lparr>si_delivery_attempt := attempt, si_delivery_status := DeliveryPending,
             si_delivery_retryable := None, si_provider_message_id := None\<rparr>)]"
  using assms unfolding begin_retry_tx_def case_prod_conv res_conv Let_def
  by (auto simp: rollback_def checked_add_def linked_def res_conv
      split: if_splits invitation_status.splits dest: into_request_doc_ok intro: status_Issued)

lemma begin_retry_ok:
  assumes "db_ok H db" and "begin_retry_tx iid rid n db = Inr (ws, x)" and "apply_writes ws db = Inr db'"
  shows "db_ok H db'"
proof (cases "ws = []")
  case False
  from begin_retry_cases [OF assms(2) False] obtain doc ivt attempt where
    c: "bt_get (db_requests db) rid = Some doc" "bt_get (db_invitations db) iid = Some ivt"
    "doc_ok rid doc" "rd_invitation_id doc = Some iid" "si_status ivt = Issued" "0 < attempt"
    "ws = [UpdateRequest rid (doc\<lparr>rd_delivery_status := Some DeliveryPending, rd_delivery_retryable := None\<rparr>),
           UpdateInvitation iid (ivt\<lparr>si_delivery_attempt := attempt, si_delivery_status := DeliveryPending,
             si_delivery_retryable := None, si_provider_message_id := None\<rparr>)]"
    by metis
  have l: "linked rid doc iid ivt"
    using base_request(2) [of db rid doc iid] assms(1) c by (auto simp: db_ok_def)
  show ?thesis
  proof (rule pair_step_ok [OF assms(1) c(1,4,2) _ _ _ _ _ _ _ _ assms(3) [unfolded c(7)]])
    show "doc_ok rid (doc\<lparr>rd_delivery_status := Some DeliveryPending, rd_delivery_retryable := None\<rparr>)"
      using c(3) linked_projection [OF c(3,4)]
      by (auto simp: doc_ok_iff valid_invitation_projection_def split: invitation_status.splits)
  qed (use c l in \<open>auto simp: linked_def valid_shape_def redemption_shape_def delivery_shape_def lookup_new_def\<close>)
qed (use assms in simp)

lemma record_delivery_cases:
  assumes "record_delivery_tx iid rid n a db = Inr (ws, x)"
  obtains doc ivt where "bt_get (db_requests db) rid = Some doc" "bt_get (db_invitations db) iid = Some ivt"
    "doc_ok rid doc" "rd_invitation_id doc = Some iid"
    "valid_shape (ivt\<lparr>si_delivery_status := attempt_status a, si_delivery_retryable := fst (attempt_metadata a),
             si_provider_message_id := snd (attempt_metadata a)\<rparr>)"
    "ws = [UpdateRequest rid (doc\<lparr>rd_delivery_status := Some (attempt_status a),
             rd_delivery_retryable := fst (attempt_metadata a)\<rparr>),
           UpdateInvitation iid (ivt\<lparr>si_delivery_status := attempt_status a,
             si_delivery_retryable := fst (attempt_metadata a), si_provider_message_id := snd (attempt_metadata a)\<rparr>)]"
  using assms unfolding record_delivery_tx_def case_prod_conv res_conv Let_def case_prod_beta
  by (auto dest: into_request_doc_ok intro: status_Issued)

lemma record_delivery_ok:
  assumes "db_ok H db" and "record_delivery_tx iid rid n a db = Inr (ws, x)" and "apply_writes ws db = Inr db'"
  shows "db_ok H db'"
proof -
  from record_delivery_cases [OF assms(2)] obtain doc ivt where
    c: "bt_get (db_requests db) rid = Some doc" "bt_get (db_invitations db) iid = Some ivt"
    "doc_ok rid doc" "rd_invitation_id doc = Some iid"
    "valid_shape (ivt\<lparr>si_delivery_status := attempt_status a, si_delivery_retryable := fst (attempt_metadata a),
             si_provider_message_id := snd (attempt_metadata a)\<rparr>)"
    "ws = [UpdateRequest rid (doc\<lparr>rd_delivery_status := Some (attempt_status a),
             rd_delivery_retryable := fst (attempt_metadata a)\<rparr>),
           UpdateInvitation iid (ivt\<lparr>si_delivery_status := attempt_status a,
             si_delivery_retryable := fst (attempt_metadata a), si_provider_message_id := snd (attempt_metadata a)\<rparr>)]"
    by metis
  have l: "linked rid doc iid ivt"
    using base_request(2) [of db rid doc iid] assms(1) c by (auto simp: db_ok_def)
  show ?thesis
  proof (rule pair_step_ok [OF assms(1) c(1,4,2) _ _ _ _ _ _ _ _ assms(3) [unfolded c(6)]])
    show "doc_ok rid (doc\<lparr>rd_delivery_status := Some (attempt_status a),
             rd_delivery_retryable := fst (attempt_metadata a)\<rparr>)"
      using c(3) linked_projection [OF c(3,4)]
      by (cases a) (auto simp: doc_ok_iff valid_invitation_projection_def split: invitation_status.splits)
  qed (use c l in \<open>auto simp: linked_def lookup_new_def\<close>)
qed

lemma revoke_cases:
  assumes "revoke_tx rid db = Inr (ws, x)" and "ws \<noteq> []"
  obtains doc iid ivt where "bt_get (db_requests db) rid = Some doc" "rd_invitation_id doc = Some iid"
    "bt_get (db_invitations db) iid = Some ivt" "doc_ok rid doc" "si_status ivt = Issued" "x = RevokeDone"
    "ws = [UpdateRequest rid (doc\<lparr>rd_invitation_status := Some Revoked\<rparr>),
           UpdateInvitation iid (ivt\<lparr>si_status := Revoked\<rparr>)]"
  using assms unfolding revoke_tx_def res_conv
  by (auto simp: rollback_def res_conv split: if_splits invitation_status.splits dest: into_request_doc_ok intro: status_Issued)

lemma revoke_ok:
  assumes "db_ok H db" and "revoke_tx rid db = Inr (ws, x)" and "apply_writes ws db = Inr db'"
  shows "db_ok H db'"
proof (cases "ws = []")
  case False
  from revoke_cases [OF assms(2) False] obtain doc iid ivt where
    c: "bt_get (db_requests db) rid = Some doc" "rd_invitation_id doc = Some iid"
    "bt_get (db_invitations db) iid = Some ivt" "doc_ok rid doc" "si_status ivt = Issued"
    "ws = [UpdateRequest rid (doc\<lparr>rd_invitation_status := Some Revoked\<rparr>),
           UpdateInvitation iid (ivt\<lparr>si_status := Revoked\<rparr>)]"
    by metis
  have l: "linked rid doc iid ivt"
    using base_request(2) [of db rid doc iid] assms(1) c by (auto simp: db_ok_def)
  show ?thesis
  proof (rule pair_step_ok [OF assms(1) c(1,2,3) _ _ _ _ _ _ _ _ assms(3) [unfolded c(6)]])
    show "doc_ok rid (doc\<lparr>rd_invitation_status := Some Revoked\<rparr>)"
      using c(4) linked_projection [OF c(4,2)] l c(5)
      by (auto simp: doc_ok_iff valid_invitation_projection_def linked_def split: invitation_status.splits delivery_status.splits)
  qed (use c l in \<open>auto simp: linked_def valid_shape_def redemption_shape_def lookup_new_def\<close>)
qed (use assms in simp)

section \<open>Revoking access\<close>

lemma revoke_access_cases:
  assumes "revoke_access_tx H rid db = Inr (ws, x)" and "ws \<noteq> []"
  obtains doc iid ivt p where "bt_get (db_requests db) rid = Some doc" "rd_invitation_id doc = Some iid"
    "bt_get (db_invitations db) iid = Some ivt" "doc_ok rid doc" "si_redeemed_by ivt = Some p"
    "si_status ivt = Redeemed" "rd_access_status doc \<noteq> Some AccessRevoked"
    "(bt_get (db_grants db) (H p) = None \<and> x = AccessRevokeAlready \<and>
      ws = [UpdateRequest rid (doc\<lparr>rd_access_status := Some AccessRevoked\<rparr>)]) \<or>
     (\<exists>g. bt_get (db_grants db) (H p) = Some g \<and> grants_invitation g iid \<and> x = AccessRevokeDone \<and>
      ws = [UpdateRequest rid (doc\<lparr>rd_access_status := Some AccessRevoked\<rparr>), DeleteGrant (H p)])"
  using assms unfolding revoke_access_tx_def res_conv Let_def
  by (auto simp: rollback_def res_conv into_request_Inr doc_ok_iff split: if_splits option.splits)

lemma revoke_access_ok:
  assumes "db_ok H db" and "revoke_access_tx H rid db = Inr (ws, x)" and "apply_writes ws db = Inr db'"
  shows "db_ok H db'"
proof (cases "ws = []")
  case False
  have b: "base_ok db" "grants_ok H db" using assms(1) by (auto simp: db_ok_def)
  from revoke_access_cases [OF assms(2) False] obtain doc iid ivt p where
    c: "bt_get (db_requests db) rid = Some doc" "rd_invitation_id doc = Some iid"
    "bt_get (db_invitations db) iid = Some ivt" "doc_ok rid doc" "si_redeemed_by ivt = Some p"
    "si_status ivt = Redeemed" "rd_access_status doc \<noteq> Some AccessRevoked"
    and ws: "(bt_get (db_grants db) (H p) = None \<and>
      ws = [UpdateRequest rid (doc\<lparr>rd_access_status := Some AccessRevoked\<rparr>)]) \<or>
     (\<exists>g. bt_get (db_grants db) (H p) = Some g \<and>
      ws = [UpdateRequest rid (doc\<lparr>rd_access_status := Some AccessRevoked\<rparr>), DeleteGrant (H p)])"
    by metis
  have l: "linked rid doc iid ivt" using base_request(2) [OF b(1) c(1,2)] c(3) by auto
  then have rid: "si_request_id ivt = rid" by (simp add: linked_def)
  have act: "active db ivt p" using c rid by (auto simp: active_def)
  then obtain g where g: "bt_get (db_grants db) (H p) = Some g" "gd_invitation_id g = iid"
    using b(2) c(3) unfolding grants_ok_def by blast
  let ?doc = "doc\<lparr>rd_access_status := Some AccessRevoked\<rparr>"
  have eff: "pair_update db rid ?doc iid ivt db'" "db_grants db' = bt_remove (H p) (db_grants db)"
    using ws g assms(3) c(3) by (auto simp: write_simps pair_update_def bt_get_insert)
  have ok': "doc_ok rid ?doc"
    using c(4) l c(6) linked_projection [OF c(4,2)]
    by (auto simp: doc_ok_iff valid_invitation_projection_def linked_def split: delivery_status.splits)
  have lk: "linked rid ?doc iid ivt" using l by (simp add: linked_def)
  have base: "base_ok db'"
    by (rule pair_update_base [OF b(1) c(1,2,3) ok' _ lk _ _ eff(1)]) (simp_all add: c(2))
  have same: "bt_get (db_invitations db') k = bt_get (db_invitations db) k" for k
    using eff(1) c(3) by (auto simp: pair_update_def)
  have act': "active db' v q \<longleftrightarrow> i \<noteq> iid \<and> active db v q" if "bt_get (db_invitations db) i = Some v" for i v q
    using pair_update_active [OF b(1) c(1,2) rid eff(1), of i v q] that same by (cases "i = iid") auto
  have "grants_ok H db'"
    unfolding grants_ok_def same
  proof (intro conjI allI impI)
    fix path h assume h: "bt_get (db_grants db') path = Some h"
    then have h0: "bt_get (db_grants db) path = Some h" "path \<noteq> H p"
      using eff(2) by (auto simp: bt_get_remove split: if_splits)
    then show "grant_valid_shape h" using b(2) unfolding grants_ok_def by blast
    obtain v q where v: "bt_get (db_invitations db) (gd_invitation_id h) = Some v" "active db v q" "H q = path"
      using b(2) h0(1) unfolding grants_ok_def by blast
    have "gd_invitation_id h \<noteq> iid"
      using v h0(2) c(3,5) by (auto simp: active_def)
    then show "\<exists>ivt q. bt_get (db_invitations db) (gd_invitation_id h) = Some ivt \<and> active db' ivt q \<and> H q = path"
      using v act' by blast
  next
    fix i v q assume v: "bt_get (db_invitations db) i = Some v" and a: "active db' v q"
    then have i: "i \<noteq> iid" "active db v q" using act' by blast+
    then obtain h where h: "bt_get (db_grants db) (H q) = Some h" "gd_invitation_id h = i"
      using b(2) v unfolding grants_ok_def by blast
    then have "H q \<noteq> H p" using g i by auto
    then show "\<exists>h. bt_get (db_grants db') (H q) = Some h \<and> gd_invitation_id h = i"
      using h eff(2) by (simp add: bt_get_remove)
  qed
  with base show ?thesis by (simp add: db_ok_def)
qed (use assms in simp)

end
