(* ===== verification/BetaReach.thy ===== *)
theory BetaReach
  imports BetaSteps
begin

text \<open>
  Granting, submitting and redeeming keep the database consistent; the states reached by any
  interleaving of transaction attempts, with any faults of the database, are consistent.
\<close>

section \<open>Rate limits\<close>

definition limits_step :: "beta_db \<Rightarrow> beta_db \<Rightarrow> bool" where
  "limits_step db db' \<longleftrightarrow> db_requests db' = db_requests db \<and> db_invitations db' = db_invitations db \<and>
     db_lookups db' = db_lookups db \<and> db_grants db' = db_grants db \<and>
     (\<forall>k d. bt_get (db_limits db') k = Some d \<longrightarrow>
        bt_get (db_limits db) k = Some d \<or> (\<exists>s. limit_into_state d = Inr s))"

lemma grants_frame:
  assumes ok: "grants_ok H db" and same: "db_grants db' = db_grants db" "db_invitations db' = db_invitations db"
    and act: "\<And>i v p. bt_get (db_invitations db) i = Some v \<Longrightarrow> active db' v p = active db v p"
  shows "grants_ok H db'"
  unfolding grants_ok_def same
proof (intro conjI allI impI)
  fix path g assume g: "bt_get (db_grants db) path = Some g"
  then show "grant_valid_shape g" using ok unfolding grants_ok_def by blast
  obtain v p where "bt_get (db_invitations db) (gd_invitation_id g) = Some v" "active db v p" "H p = path"
    using g ok unfolding grants_ok_def by blast
  then show "\<exists>v p. bt_get (db_invitations db) (gd_invitation_id g) = Some v \<and> active db' v p \<and> H p = path"
    using act by blast
next
  fix i v p assume v: "bt_get (db_invitations db) i = Some v" and a: "active db' v p"
  then have "active db v p" using act by blast
  then show "\<exists>g. bt_get (db_grants db) (H p) = Some g \<and> gd_invitation_id g = i"
    using v ok unfolding grants_ok_def by blast
qed

lemma limits_step_ok:
  assumes ok: "db_ok H db" and step: "limits_step db db'"
  shows "db_ok H db'"
proof -
  have same: "db_requests db' = db_requests db" "db_invitations db' = db_invitations db"
    "db_lookups db' = db_lookups db" "db_grants db' = db_grants db"
    using step by (simp_all add: limits_step_def)
  have "base_ok db" using ok by (simp add: db_ok_def)
  moreover from this have "\<exists>s. limit_into_state d = Inr s" if "bt_get (db_limits db') k = Some d" for k d
    using that step unfolding base_ok_def limits_step_def by blast
  ultimately have "base_ok db'" unfolding base_ok_def same by blast
  moreover have "grants_ok H db'"
    by (rule grants_frame [of H db]) (use ok same in \<open>simp_all add: db_ok_def active_def\<close>)
  ultimately show ?thesis by (simp add: db_ok_def)
qed

lemma limits_step_trans: "limits_step a b \<Longrightarrow> limits_step b c \<Longrightarrow> limits_step a c"
  unfolding limits_step_def by metis

lemma rate_limit_write_step:
  assumes "apply_write (rate_limit_write path b s) db = Inr db'" and "rate_limit_valid_shape s"
  shows "limits_step db db'"
  using assms limit_state_from_state [OF assms(2)]
  by (auto simp: rate_limit_write_def limits_step_def write_simps bt_get_insert limit_state_def split: if_splits)

lemma limit_state_valid:
  "limit_state d = Inr c \<Longrightarrow> c = Some r \<Longrightarrow> rate_limit_valid_shape r"
  by (auto simp: limit_state_def limit_into_state_def Let_def bind_res_Inr_conv split: option.splits if_splits)

lemma consumed_valid:
  assumes "limit_state d = Inr c" and "rate_limit_consume c n now = (s, True)"
  shows "rate_limit_valid_shape s"
  using consume_valid_shape [OF assms(2)] limit_state_valid [OF assms(1)] by blast

lemma redemption_target_cases:
  assumes "redemption_target_tx a db = Inr (ws, x)" and "ws \<noteq> []"
  obtains p1 p2 b1 b2 s1 s2 where "rate_limit_valid_shape s1" "rate_limit_valid_shape s2"
    "ws = [rate_limit_write p1 b1 s1, rate_limit_write p2 b2 s2]"
proof -
  let ?p = "''redemption-player-'' @ ra_player_rate_key a" and ?i = "''redemption-ip-'' @ ra_ip_rate_key a"
  obtain c1 s1 a1 c2 s2 a2 where l: "limit_state (bt_get (db_limits db) ?p) = Inr c1"
    "rate_limit_consume c1 REDEMPTION_PLAYER_ATTEMPT_LIMIT (ra_now a) = (s1, a1)"
    "limit_state (bt_get (db_limits db) ?i) = Inr c2"
    "rate_limit_consume c2 REDEMPTION_IP_ATTEMPT_LIMIT (ra_now a) = (s2, a2)"
    and r: "(if \<not> a1 \<or> \<not> a2 then rollback RedeemRateLimited else
      bind_res (case ra_lookup_id a of None \<Rightarrow> Inr RedeemInvalid | Some i \<Rightarrow> lookup_redemption_target i db)
        (\<lambda>outcome. Inr ([rate_limit_write ?p (bt_get (db_limits db) ?p \<noteq> None) s1,
          rate_limit_write ?i (bt_get (db_limits db) ?i \<noteq> None) s2], outcome))) = Inr (ws, x)"
    using assms(1) unfolding redemption_target_tx_def Let_def res_conv(1) prod_res_conv by blast
  have "a1 \<and> a2" using r assms(2) by (auto simp: rollback_def split: if_splits)
  then show thesis
    using r that [OF consumed_valid [OF l(1)] consumed_valid [OF l(3)]] l(2,4)
    by (auto simp only: bind_res_Inr_conv if_False simp_thms sum.inject prod.inject)
qed

lemma redemption_target_ok:
  assumes "db_ok H db" and "redemption_target_tx a db = Inr (ws, x)" and "apply_writes ws db = Inr db'"
  shows "db_ok H db'"
proof (cases "ws = []")
  case False
  from redemption_target_cases [OF assms(2) False] obtain p1 p2 b1 b2 s1 s2 where
    s: "rate_limit_valid_shape s1" "rate_limit_valid_shape s2"
    and ws: "ws = [rate_limit_write p1 b1 s1, rate_limit_write p2 b2 s2]" by metis
  then obtain d where "apply_write (rate_limit_write p1 b1 s1) db = Inr d"
    "apply_write (rate_limit_write p2 b2 s2) d = Inr db'"
    using assms(3) by (auto simp: bind_res_Inr_conv)
  then show ?thesis
    using limits_step_ok [OF assms(1)] limits_step_trans rate_limit_write_step s by metis
qed (use assms in simp)

section \<open>Submitting\<close>

text \<open>What the runtime hands to the store: a hashed key in hexadecimal and a normalized address.\<close>

definition well_formed_submission :: "submission \<Rightarrow> bool" where
  "well_formed_submission s \<longleftrightarrow> opaque_request_id (sub_email_rate_key s) \<and>
     parse_email (text_of (as_str (sub_email s))) = Inr (sub_email s)"

lemma submit_parts:
  assumes "submit_tx s db = Inr (ws, x)" and "ws \<noteq> []"
  obtains c1 s1 a1 c2 s2 a2 rest where
    "limit_state (bt_get (db_limits db) (''email-'' @ sub_email_rate_key s)) = Inr c1"
    "rate_limit_consume c1 EMAIL_ATTEMPT_LIMIT (sub_now s) = (s1, a1)"
    "limit_state (bt_get (db_limits db) (''ip-'' @ sub_ip_rate_key s)) = Inr c2"
    "rate_limit_consume c2 IP_ATTEMPT_LIMIT (sub_now s) = (s2, a2)" "a1 \<and> a2"
    "ws = [rate_limit_write (''email-'' @ sub_email_rate_key s)
             (bt_get (db_limits db) (''email-'' @ sub_email_rate_key s) \<noteq> None) s1,
           rate_limit_write (''ip-'' @ sub_ip_rate_key s)
             (bt_get (db_limits db) (''ip-'' @ sub_ip_rate_key s) \<noteq> None) s2] @ rest"
    "rest = [] \<and> x = Duplicate \<or> x = Recorded \<and> rest = [CreateRequest (sub_email_rate_key s) (request_pending s)]"
proof -
  let ?p = "''email-'' @ sub_email_rate_key s" and ?i = "''ip-'' @ sub_ip_rate_key s"
  let ?w = "\<lambda>s1 s2. [rate_limit_write ?p (bt_get (db_limits db) ?p \<noteq> None) s1,
      rate_limit_write ?i (bt_get (db_limits db) ?i \<noteq> None) s2]"
  obtain c1 s1 a1 c2 s2 a2 where l: "limit_state (bt_get (db_limits db) ?p) = Inr c1"
    "rate_limit_consume c1 EMAIL_ATTEMPT_LIMIT (sub_now s) = (s1, a1)"
    "limit_state (bt_get (db_limits db) ?i) = Inr c2"
    "rate_limit_consume c2 IP_ATTEMPT_LIMIT (sub_now s) = (s2, a2)"
    and r: "(if \<not> a1 \<or> \<not> a2 then rollback OutcomeRateLimited else
      if bt_get (db_requests db) (sub_email_rate_key s) \<noteq> None then Inr (?w s1 s2, Duplicate)
      else Inr (?w s1 s2 @ [CreateRequest (sub_email_rate_key s) (request_pending s)], Recorded)) = Inr (ws, x)"
    using assms(1) unfolding submit_tx_def Let_def if_Inl_conv res_conv(1) prod_res_conv by blast
  have a: "a1 \<and> a2" using r assms(2) by (auto simp: rollback_def split: if_splits)
  show thesis
  proof (cases "bt_get (db_requests db) (sub_email_rate_key s) = None")
    case True
    then have e: "?w s1 s2 @ [CreateRequest (sub_email_rate_key s) (request_pending s)] = ws" "Recorded = x"
      using r a by (simp_all only: simp_thms if_True if_False sum.inject prod.inject)
    show thesis by (rule that [OF l a e(1) [symmetric]]) (simp add: e(2) [symmetric])
  next
    case False
    then have e: "?w s1 s2 = ws" "Duplicate = x"
      using r a by (simp_all only: simp_thms if_True if_False sum.inject prod.inject)
    show thesis
      by (rule that [OF l a, where rest = "[]"]) (simp_all only: e [symmetric] append_Nil2 simp_thms)
  qed
qed

lemma submit_cases:
  assumes "submit_tx s db = Inr (ws, x)" and "ws \<noteq> []"
  obtains p1 p2 b1 b2 s1 s2 rest where "rate_limit_valid_shape s1" "rate_limit_valid_shape s2"
    "ws = [rate_limit_write p1 b1 s1, rate_limit_write p2 b2 s2] @ rest"
    "rest = [] \<and> x = Duplicate \<or> x = Recorded \<and> rest = [CreateRequest (sub_email_rate_key s) (request_pending s)]"
proof -
  obtain c1 s1 a1 c2 s2 a2 rest where p:
    "limit_state (bt_get (db_limits db) (''email-'' @ sub_email_rate_key s)) = Inr c1"
    "rate_limit_consume c1 EMAIL_ATTEMPT_LIMIT (sub_now s) = (s1, a1)"
    "limit_state (bt_get (db_limits db) (''ip-'' @ sub_ip_rate_key s)) = Inr c2"
    "rate_limit_consume c2 IP_ATTEMPT_LIMIT (sub_now s) = (s2, a2)" "a1 \<and> a2"
    "ws = [rate_limit_write (''email-'' @ sub_email_rate_key s)
             (bt_get (db_limits db) (''email-'' @ sub_email_rate_key s) \<noteq> None) s1,
           rate_limit_write (''ip-'' @ sub_ip_rate_key s)
             (bt_get (db_limits db) (''ip-'' @ sub_ip_rate_key s) \<noteq> None) s2] @ rest"
    "rest = [] \<and> x = Duplicate \<or> x = Recorded \<and> rest = [CreateRequest (sub_email_rate_key s) (request_pending s)]"
    using submit_parts [OF assms] .
  have "rate_limit_valid_shape s1" "rate_limit_valid_shape s2"
    using consumed_valid [OF p(1)] consumed_valid [OF p(3)] p(2,4,5) by simp_all
  then show thesis by (rule that [OF _ _ p(6,7)])
qed

lemma create_request_ok:
  assumes ok: "db_ok H db" and wf: "well_formed_submission s"
    and app: "apply_write (CreateRequest (sub_email_rate_key s) (request_pending s)) db = Inr db'"
  shows "db_ok H db'"
proof -
  let ?k = "sub_email_rate_key s" and ?d = "request_pending s"
  have b: "base_ok db" "grants_ok H db" using ok by (auto simp: db_ok_def)
  have none: "bt_get (db_requests db) ?k = None"
    and req: "bt_get (db_requests db') k = (if k = ?k then Some ?d else bt_get (db_requests db) k)"
    and same: "db_invitations db' = db_invitations db" "db_lookups db' = db_lookups db"
      "db_limits db' = db_limits db" "db_grants db' = db_grants db" for k
    using app by (auto simp: write_simps bt_get_insert)
  have new: "doc_ok ?k ?d" "rd_invitation_id ?d = None"
    using wf by (auto simp: doc_ok_iff well_formed_submission_def request_pending_def valid_invitation_projection_def)
  have ne: "si_request_id v \<noteq> ?k" if "bt_get (db_invitations db) i = Some v" for i v
    using base_invitation(1) [OF b(1) that] none by auto
  have old: "bt_get (db_requests db') (si_request_id v) = bt_get (db_requests db) (si_request_id v)"
    if "bt_get (db_invitations db) i = Some v" for i v
    using ne [OF that] req by simp
  have act: "active db' v p \<longleftrightarrow> active db v p" if "bt_get (db_invitations db) i = Some v" for i v p
    using old [OF that] by (simp add: active_def)
  have "base_ok db'"
    unfolding base_ok_def same
  proof (intro conjI allI impI)
    fix k d assume d: "bt_get (db_requests db') k = Some d"
    show "doc_ok k d" using d req new(1) base_request(1) [OF b(1)] by (cases "k = ?k") auto
    fix i assume i: "rd_invitation_id d = Some i"
    show "\<exists>v. bt_get (db_invitations db) i = Some v \<and> linked k d i v"
      using d i req new(2) base_request(2) [OF b(1)] by (cases "k = ?k") auto
  next
    fix i v assume v: "bt_get (db_invitations db) i = Some v"
    show "\<exists>d. bt_get (db_requests db') (si_request_id v) = Some d \<and> rd_invitation_id d = Some i"
      using base_invitation(1) [OF b(1) v] old [OF v] by auto
    show "bt_get (db_lookups db) (si_lookup_id v) = Some (lookup_new v)"
      by (rule base_invitation(2) [OF b(1) v])
  next
    fix l d assume "bt_get (db_lookups db) l = Some d"
    then show "\<exists>v. bt_get (db_invitations db) (lk_invitation_id d) = Some v \<and> si_lookup_id v = l"
      using base_lookup [OF b(1)] by blast
  next
    fix k d assume "bt_get (db_limits db) k = Some d"
    then show "\<exists>x. limit_into_state d = Inr x" using b(1) unfolding base_ok_def by blast
  qed
  moreover have "grants_ok H db'" by (rule grants_frame [OF b(2) same(4,1) act])
  ultimately show ?thesis by (simp add: db_ok_def)
qed

lemma submit_ok:
  assumes "db_ok H db" and "well_formed_submission s" and "submit_tx s db = Inr (ws, x)"
    and "apply_writes ws db = Inr db'"
  shows "db_ok H db'"
proof (cases "ws = []")
  case False
  from submit_cases [OF assms(3) False] obtain p1 p2 b1 b2 s1 s2 rest where
    s: "rate_limit_valid_shape s1" "rate_limit_valid_shape s2"
    and ws: "ws = [rate_limit_write p1 b1 s1, rate_limit_write p2 b2 s2] @ rest"
      "rest = [] \<or> rest = [CreateRequest (sub_email_rate_key s) (request_pending s)]" by metis
  then obtain d d' where d: "apply_write (rate_limit_write p1 b1 s1) db = Inr d"
    "apply_write (rate_limit_write p2 b2 s2) d = Inr d'" "apply_writes rest d' = Inr db'"
    using assms(4) by (auto simp: bind_res_Inr_conv)
  have "db_ok H d'"
    using limits_step_ok [OF assms(1)] limits_step_trans rate_limit_write_step s d by metis
  then show ?thesis
    using ws(2) d(3) create_request_ok [OF _ assms(2)] by (auto simp: bind_res_Inr_conv)
qed (use assms in simp)

section \<open>Granting\<close>

text \<open>What \<open>InvitationIssuer::prepare\<close> produces: an issued invitation whose delivery is pending.\<close>

definition freshly_prepared :: "stored_invitation \<Rightarrow> bool" where
  "freshly_prepared i \<longleftrightarrow> si_status i = Issued \<and> si_delivery_status i = DeliveryPending"

lemma commit_grant_cases:
  assumes "commit_grant_tx ivt db = Inr (ws, x)" and "ws \<noteq> []"
  obtains doc where "bt_get (db_requests db) (si_request_id ivt) = Some doc" "valid_shape ivt"
    "doc_ok (si_request_id ivt) doc" "rd_status doc = RequestPending" "rd_email doc = as_str (si_email ivt)"
    "x = GrantIssued"
    "ws = [UpdateRequest (si_request_id ivt) (doc\<lparr>rd_status := RequestGranted,
             rd_delivery_status := Some DeliveryPending, rd_delivery_retryable := None,
             rd_invitation_id := Some (si_id ivt), rd_invitation_status := Some Issued\<rparr>),
           CreateInvitation (si_id ivt) ivt, CreateLookup (si_lookup_id ivt) (lookup_new ivt)]"
proof -
  obtain doc r where d: "valid_shape ivt" "bt_get (db_requests db) (si_request_id ivt) = Some doc"
    "into_request doc (si_request_id ivt) = Inr r"
    and res: "(if br_status r = RequestGranted then rollback GrantAlreadyGranted
      else if br_email r \<noteq> si_email ivt then Inl ErrInvalidRecord
      else Inr ([UpdateRequest (si_request_id ivt) (doc\<lparr>rd_status := RequestGranted,
             rd_delivery_status := Some DeliveryPending, rd_delivery_retryable := None,
             rd_invitation_id := Some (si_id ivt), rd_invitation_status := Some Issued\<rparr>),
           CreateInvitation (si_id ivt) ivt, CreateLookup (si_lookup_id ivt) (lookup_new ivt)], GrantIssued)) =
      Inr (ws, x)"
    using assms(1) unfolding commit_grant_tx_def Let_def if_Inl_conv(1) option_Inl_conv res_conv(1)
    by blast
  have "br_status r \<noteq> RequestGranted" using res assms(2) by (auto simp: rollback_def)
  then have "rd_status doc = RequestPending" using d(3) by (cases "rd_status doc") (auto simp: into_request_Inr)
  moreover have "br_email r = si_email ivt" using res \<open>br_status r \<noteq> RequestGranted\<close> by (auto split: if_splits)
  ultimately show thesis
    using that [OF d(2,1) into_request_doc_ok [OF d(3)]] res d(3) \<open>br_status r \<noteq> RequestGranted\<close>
    by (simp add: into_request_Inr)
qed

lemma commit_grant_ok:
  assumes ok: "db_ok H db" and fresh: "freshly_prepared ivt"
    and tx: "commit_grant_tx ivt db = Inr (ws, x)" and app: "apply_writes ws db = Inr db'"
  shows "db_ok H db'"
proof (cases "ws = []")
  case False
  let ?rid = "si_request_id ivt" and ?iid = "si_id ivt"
  have b: "base_ok db" "grants_ok H db" using ok by (auto simp: db_ok_def)
  from commit_grant_cases [OF tx False] obtain doc where
    c: "bt_get (db_requests db) ?rid = Some doc" "valid_shape ivt" "doc_ok ?rid doc"
      "rd_status doc = RequestPending" "rd_email doc = as_str (si_email ivt)"
    and ws: "ws = [UpdateRequest ?rid (doc\<lparr>rd_status := RequestGranted,
             rd_delivery_status := Some DeliveryPending, rd_delivery_retryable := None,
             rd_invitation_id := Some ?iid, rd_invitation_status := Some Issued\<rparr>),
           CreateInvitation ?iid ivt, CreateLookup (si_lookup_id ivt) (lookup_new ivt)]"
    by metis
  let ?doc = "doc\<lparr>rd_status := RequestGranted,
             rd_delivery_status := Some DeliveryPending, rd_delivery_retryable := None,
             rd_invitation_id := Some ?iid, rd_invitation_status := Some Issued\<rparr>"
  have none: "bt_get (db_invitations db) ?iid = None" "bt_get (db_lookups db) (si_lookup_id ivt) = None"
    and req: "bt_get (db_requests db') k = (if k = ?rid then Some ?doc else bt_get (db_requests db) k)"
    and invn: "bt_get (db_invitations db') k = (if k = ?iid then Some ivt else bt_get (db_invitations db) k)"
    and lkp: "bt_get (db_lookups db') k = (if k = si_lookup_id ivt then Some (lookup_new ivt) else bt_get (db_lookups db) k)"
    and same: "db_limits db' = db_limits db" "db_grants db' = db_grants db" for k
    using app unfolding ws by (auto simp: write_simps bt_get_insert)
  have doc0: "rd_invitation_id doc = None" "rd_access_status doc = None"
    using c(3,4) by (auto simp: doc_ok_iff valid_invitation_projection_def)
  have id: "length ?iid = 32" "list_all is_lower_hex ?iid"
    using c(2) by (auto simp: valid_shape_def opaque_hex_def RANDOM_VALUE_BYTES_def)
  have new: "doc_ok ?rid ?doc" using c(3) doc0 id by (auto simp: doc_ok_iff valid_invitation_projection_def)
  have lk: "linked ?rid ?doc ?iid ivt"
    using c(2,5) fresh by (auto simp: linked_def freshly_prepared_def valid_shape_def delivery_shape_def)
  have ne: "si_request_id v \<noteq> ?rid" "i \<noteq> ?iid" "si_lookup_id v \<noteq> si_lookup_id ivt"
    if "bt_get (db_invitations db) i = Some v" for i v
    using base_invitation [OF b(1) that] that none c(1) doc0 by auto
  have act: "active db' v p \<longleftrightarrow> active db v p" if "bt_get (db_invitations db) i = Some v" for i v p
    using ne(1) [OF that] req by (simp add: active_def)
  have act_new: "\<not> active db' ivt p" for p using fresh by (simp add: active_def freshly_prepared_def)
  have "base_ok db'"
    unfolding base_ok_def same
  proof (intro conjI allI impI)
    fix k d assume d: "bt_get (db_requests db') k = Some d"
    show "doc_ok k d" using d req new base_request(1) [OF b(1)] by (cases "k = ?rid") auto
    fix i assume i: "rd_invitation_id d = Some i"
    show "\<exists>v. bt_get (db_invitations db') i = Some v \<and> linked k d i v"
    proof (cases "k = ?rid")
      case True
      then show ?thesis using d i req invn lk by auto
    next
      case False
      then have d0: "bt_get (db_requests db) k = Some d" using d req by simp
      obtain v where v: "bt_get (db_invitations db) i = Some v" "linked k d i v"
        using base_request(2) [OF b(1) d0 i] by blast
      then show ?thesis using ne(2) [OF v(1)] invn by auto
    qed
  next
    fix i v assume v: "bt_get (db_invitations db') i = Some v"
    show "\<exists>d. bt_get (db_requests db') (si_request_id v) = Some d \<and> rd_invitation_id d = Some i"
    proof (cases "i = ?iid")
      case True
      then show ?thesis using v invn req by auto
    next
      case False
      then have v0: "bt_get (db_invitations db) i = Some v" using v invn by simp
      then show ?thesis using base_invitation(1) [OF b(1) v0] ne(1) [OF v0] req by auto
    qed
    show "bt_get (db_lookups db') (si_lookup_id v) = Some (lookup_new v)"
    proof (cases "i = ?iid")
      case True
      then show ?thesis using v invn lkp by auto
    next
      case False
      then have v0: "bt_get (db_invitations db) i = Some v" using v invn by simp
      then show ?thesis using base_invitation(2) [OF b(1) v0] ne(3) [OF v0] lkp by auto
    qed
  next
    fix l d assume d: "bt_get (db_lookups db') l = Some d"
    show "\<exists>v. bt_get (db_invitations db') (lk_invitation_id d) = Some v \<and> si_lookup_id v = l"
    proof (cases "l = si_lookup_id ivt")
      case True
      then show ?thesis using d lkp invn by (auto simp: lookup_new_def)
    next
      case False
      then have "bt_get (db_lookups db) l = Some d" using d lkp by simp
      then obtain v where v: "bt_get (db_invitations db) (lk_invitation_id d) = Some v" "si_lookup_id v = l"
        using base_lookup [OF b(1)] by blast
      then show ?thesis using ne(2) [OF v(1)] invn by auto
    qed
  next
    fix k d assume "bt_get (db_limits db) k = Some d"
    then show "\<exists>x. limit_into_state d = Inr x" using b(1) unfolding base_ok_def by blast
  qed
  moreover have "grants_ok H db'"
    unfolding grants_ok_def same
  proof (intro conjI allI impI)
    fix path g assume g: "bt_get (db_grants db) path = Some g"
    then show "grant_valid_shape g" using b(2) unfolding grants_ok_def by blast
    obtain v p where v: "bt_get (db_invitations db) (gd_invitation_id g) = Some v" "active db v p" "H p = path"
      using g b(2) unfolding grants_ok_def by blast
    then show "\<exists>v p. bt_get (db_invitations db') (gd_invitation_id g) = Some v \<and> active db' v p \<and> H p = path"
      using ne(2) [OF v(1)] invn act by metis
  next
    fix i v p assume v: "bt_get (db_invitations db') i = Some v" and a: "active db' v p"
    then have "i \<noteq> ?iid" using act_new invn by auto
    then have "bt_get (db_invitations db) i = Some v" using v invn by simp
    then show "\<exists>g. bt_get (db_grants db) (H p) = Some g \<and> gd_invitation_id g = i"
      using a act b(2) unfolding grants_ok_def by blast
  qed
  ultimately show ?thesis by (simp add: db_ok_def)
qed (use ok app in simp)

section \<open>Redeeming\<close>

lemma commit_redemption_cases:
  assumes "commit_redemption_tx H c p now db = Inr (ws, x)" and "ws \<noteq> []"
  obtains doc ivt where "bt_get (db_requests db) (rc_request_id c) = Some doc"
    "rd_invitation_id doc = Some (rc_invitation_id c)"
    "bt_get (db_invitations db) (rc_invitation_id c) = Some ivt" "doc_ok (rc_request_id c) doc"
    "linked (rc_request_id c) doc (rc_invitation_id c) ivt" "si_status ivt = Issued"
    "bt_get (db_grants db) (H p) = None" "opaque_identifier (rc_invitation_id c) 32"
    "valid_shape (ivt\<lparr>si_status := Redeemed, si_redeemed_at := Some now, si_redeemed_by := Some p\<rparr>)"
    "x = CommitGranted" "candidate_of ivt = c"
    "ws = [UpdateInvitation (rc_invitation_id c)
             (ivt\<lparr>si_status := Redeemed, si_redeemed_at := Some now, si_redeemed_by := Some p\<rparr>),
           UpdateRequest (rc_request_id c)
             (doc\<lparr>rd_invitation_status := Some Redeemed, rd_access_status := Some AccessActive\<rparr>),
           CreateGrant (H p) (grant_new (rc_invitation_id c) now)]"
proof -
  let ?ivt = "\<lambda>i. i\<lparr>si_status := Redeemed, si_redeemed_at := Some now, si_redeemed_by := Some p\<rparr>"
  obtain lookup ivt doc r where d: "bt_get (db_lookups db) (rc_lookup_id c) = Some lookup"
    "bt_get (db_invitations db) (rc_invitation_id c) = Some ivt"
    "bt_get (db_requests db) (rc_request_id c) = Some doc" "into_request doc (rc_request_id c) = Inr r"
    and ck: "\<not> (\<not> lookup_valid_for lookup (rc_lookup_id c) \<or> lk_invitation_id lookup \<noteq> rc_invitation_id c \<or>
       \<not> valid_shape ivt \<or> si_id ivt \<noteq> rc_invitation_id c \<or>
       si_authenticator ivt \<noteq> rc_authenticator c \<or> si_email ivt \<noteq> rc_email c \<or>
       si_lookup_id ivt \<noteq> rc_lookup_id c \<or> si_request_id ivt \<noteq> rc_request_id c \<or>
       si_created_at ivt \<noteq> lk_created_at lookup \<or>
       br_email r \<noteq> rc_email c \<or> br_status r \<noteq> RequestGranted \<or>
       rd_invitation_id doc \<noteq> Some (rc_invitation_id c) \<or>
       rd_invitation_status doc \<noteq> Some (si_status ivt) \<or>
       rd_delivery_status doc \<noteq> Some (si_delivery_status ivt) \<or>
       rd_delivery_retryable doc \<noteq> si_delivery_retryable ivt)"
    and res: "(case si_status ivt of
                   Revoked \<Rightarrow> rollback CommitRevoked
                 | Redeemed \<Rightarrow> rollback CommitAlreadyHandled
                 | Issued \<Rightarrow>
                     if bt_get (db_grants db) (H p) \<noteq> None then rollback CommitAlreadyHandled
                     else if \<not> valid_shape (?ivt ivt) then Inl ErrInvalidRecord
                          else Inr ([UpdateInvitation (rc_invitation_id c) (?ivt ivt),
                                     UpdateRequest (rc_request_id c)
                                       (doc\<lparr>rd_invitation_status := Some Redeemed,
                                            rd_access_status := Some AccessActive\<rparr>),
                                     CreateGrant (H p) (grant_new (rc_invitation_id c) now)],
                                    CommitGranted)) = Inr (ws, x)"
    using assms(1) unfolding commit_redemption_tx_def Let_def case_prod_conv option_Inl_conv if_Inl_conv(1) res_conv(1)
    by blast
  have i: "si_status ivt = Issued"
    using res assms(2) by (cases "si_status ivt") (auto simp: rollback_def)
  then have g: "bt_get (db_grants db) (H p) = None"
    using res assms(2) by (auto simp: rollback_def split: if_splits)
  have v: "valid_shape (?ivt ivt)" using res i g by (auto split: if_splits)
  have "linked (rc_request_id c) doc (rc_invitation_id c) ivt"
    using ck d(4) by (auto simp: linked_def into_request_Inr)
  moreover have "opaque_identifier (rc_invitation_id c) 32" using ck by (auto simp: lookup_valid_for_def)
  moreover have "candidate_of ivt = c" using ck by (auto simp: candidate_of_def)
  ultimately show thesis
    using that [OF d(3) _ d(2) into_request_doc_ok [OF d(4)] _ i g _ v] ck res i g v by simp
qed

lemma commit_redemption_ok:
  assumes ok: "db_ok H db" and tx: "commit_redemption_tx H c p now db = Inr (ws, x)"
    and app: "apply_writes ws db = Inr db'"
  shows "db_ok H db'"
proof (cases "ws = []")
  case False
  let ?rid = "rc_request_id c" and ?iid = "rc_invitation_id c"
  have b: "base_ok db" "grants_ok H db" using ok by (auto simp: db_ok_def)
  from commit_redemption_cases [OF tx False] obtain doc ivt where
    d: "bt_get (db_requests db) ?rid = Some doc" "rd_invitation_id doc = Some ?iid"
      "bt_get (db_invitations db) ?iid = Some ivt" "doc_ok ?rid doc" "linked ?rid doc ?iid ivt" "si_status ivt = Issued"
    and g: "bt_get (db_grants db) (H p) = None" "opaque_identifier ?iid 32"
    and v: "valid_shape (ivt\<lparr>si_status := Redeemed, si_redeemed_at := Some now, si_redeemed_by := Some p\<rparr>)"
    and ws: "ws = [UpdateInvitation ?iid
             (ivt\<lparr>si_status := Redeemed, si_redeemed_at := Some now, si_redeemed_by := Some p\<rparr>),
           UpdateRequest ?rid
             (doc\<lparr>rd_invitation_status := Some Redeemed, rd_access_status := Some AccessActive\<rparr>),
           CreateGrant (H p) (grant_new ?iid now)]" by metis
  let ?ivt = "ivt\<lparr>si_status := Redeemed, si_redeemed_at := Some now, si_redeemed_by := Some p\<rparr>"
  let ?doc = "doc\<lparr>rd_invitation_status := Some Redeemed, rd_access_status := Some AccessActive\<rparr>"
  have eff: "pair_update db ?rid ?doc ?iid ?ivt db'"
    and gr: "bt_get (db_grants db') k = (if k = H p then Some (grant_new ?iid now) else bt_get (db_grants db) k)" for k
    using app unfolding ws by (auto simp: write_simps pair_update_def bt_get_insert)
  have rid: "si_request_id ?ivt = ?rid" using d(5) by (simp add: linked_def)
  have new: "doc_ok ?rid ?doc"
    using d(4) d(5) d(2)
    by (cases "rd_status doc"; cases "rd_delivery_status doc")
      (simp_all add: doc_ok_iff linked_def valid_invitation_projection_def split: delivery_status.splits)
  have lk: "linked ?rid ?doc ?iid ?ivt" using d(5) v by (simp add: linked_def)
  have "base_ok db'"
    by (rule pair_update_base [OF b(1) d(1,2,3) new _ lk _ _ eff]) (simp_all add: d(2) lookup_new_def)
  have invn: "bt_get (db_invitations db') k = (if k = ?iid then Some ?ivt else bt_get (db_invitations db) k)" for k
    using eff by (auto simp: pair_update_def)
  have act: "active db' w q \<longleftrightarrow> (if i = ?iid then q = p else active db w q)"
    if "bt_get (db_invitations db') i = Some w" for i w q
    using pair_update_active [OF b(1) d(1,2) rid eff that, of q] by auto
  have "grants_ok H db'"
    unfolding grants_ok_def
  proof (intro conjI allI impI)
    fix path h assume h: "bt_get (db_grants db') path = Some h"
    show "grant_valid_shape h"
      using h g(2) b(2) gr unfolding grants_ok_def
      by (cases "path = H p") (auto simp: grant_valid_shape_def grant_new_def)
    show "\<exists>w q. bt_get (db_invitations db') (gd_invitation_id h) = Some w \<and> active db' w q \<and> H q = path"
    proof (cases "path = H p")
      case True
      then have "gd_invitation_id h = ?iid" using h gr by (auto simp: grant_new_def)
      then show ?thesis using invn [of ?iid] act [of ?iid ?ivt p] True by auto
    next
      case ne: False
      then have "bt_get (db_grants db) path = Some h" using h gr by simp
      then obtain w q where w: "bt_get (db_invitations db) (gd_invitation_id h) = Some w" "active db w q" "H q = path"
        using b(2) unfolding grants_ok_def by blast
      have "gd_invitation_id h \<noteq> ?iid" using w d(3,6) by (auto simp: active_def)
      then have "bt_get (db_invitations db') (gd_invitation_id h) = Some w" "active db' w q"
        using w act [of "gd_invitation_id h" w q] invn by auto
      with w(3) show ?thesis by blast
    qed
  next
    fix i w q assume w: "bt_get (db_invitations db') i = Some w" and a: "active db' w q"
    show "\<exists>h. bt_get (db_grants db') (H q) = Some h \<and> gd_invitation_id h = i"
    proof (cases "i = ?iid")
      case True
      then have "q = p" using act [OF w] a by simp
      then show ?thesis using gr True by (auto simp: grant_new_def)
    next
      case False
      then have "bt_get (db_invitations db) i = Some w" "active db w q" using w a invn act [OF w] by auto
      then obtain h where "bt_get (db_grants db) (H q) = Some h" "gd_invitation_id h = i"
        using b(2) unfolding grants_ok_def by blast
      then show ?thesis using g(1) gr by (cases "H q = H p") auto
    qed
  qed
  with \<open>base_ok db'\<close> show ?thesis by (simp add: db_ok_def)
qed (use ok app in simp)

section \<open>Reachable states\<close>

text \<open>A command of the store. The arguments are those the runtime can pass.\<close>

datatype beta_command =
    DoSubmit submission
  | DoGrant stored_invitation
  | DoRetry string string nat
  | DoRecordDelivery string string nat delivery_attempt
  | DoRevoke string
  | DoRevokeAccess string
  | DoRedemptionTarget redemption_attempt
  | DoRedeem redemption_candidate string int

fun admissible :: "beta_command \<Rightarrow> bool" where
  "admissible (DoSubmit s) = well_formed_submission s"
| "admissible (DoGrant i) = freshly_prepared i"
| "admissible _ = True"

text \<open>One attempt of a command, without its result.\<close>

definition erase :: "'r transaction \<Rightarrow> unit transaction" where
  "erase tx db = bind_res (tx db) (\<lambda>(ws, _). Inr (ws, ()))"

fun command_tx :: "(string \<Rightarrow> string) \<Rightarrow> beta_command \<Rightarrow> unit transaction" where
  "command_tx H (DoSubmit s) = erase (submit_tx s)"
| "command_tx H (DoGrant i) = erase (commit_grant_tx i)"
| "command_tx H (DoRetry iid rid n) = erase (begin_retry_tx iid rid n)"
| "command_tx H (DoRecordDelivery iid rid n a) = erase (record_delivery_tx iid rid n a)"
| "command_tx H (DoRevoke rid) = erase (revoke_tx rid)"
| "command_tx H (DoRevokeAccess rid) = erase (revoke_access_tx H rid)"
| "command_tx H (DoRedemptionTarget a) = erase (redemption_target_tx a)"
| "command_tx H (DoRedeem c p now) = erase (commit_redemption_tx H c p now)"

inductive beta_reach :: "(string \<Rightarrow> string) \<Rightarrow> beta_db \<Rightarrow> bool" for H where
  beta_start: "beta_reach H empty_db"
| beta_attempt: "\<lbrakk> beta_reach H db; admissible cmd \<rbrakk> \<Longrightarrow>
    beta_reach H (fst (run_attempt f (command_tx H cmd) db))"

lemma erase_Inr: "erase tx db = Inr (ws, u) \<longleftrightarrow> (\<exists>x. tx db = Inr (ws, x))"
  by (auto simp: erase_def bind_res_Inr_conv)

lemma command_ok:
  assumes "db_ok H db" and "admissible cmd" and "command_tx H cmd db = Inr (ws, u)"
    and "apply_writes ws db = Inr db'"
  shows "db_ok H db'"
  using assms
  by (cases cmd) (auto simp: erase_Inr intro: submit_ok commit_grant_ok begin_retry_ok record_delivery_ok
      revoke_ok revoke_access_ok redemption_target_ok commit_redemption_ok)

lemma run_transaction_ok:
  assumes "db_ok H db" and "admissible cmd"
  shows "db_ok H (fst (run_transaction (command_tx H cmd) db))"
proof (cases "run_transaction (command_tx H cmd) db")
  case (Pair db' r)
  then show ?thesis
    using assms by (auto elim!: run_transaction_cases intro: command_ok)
qed

lemma beta_reach_ok: "beta_reach H db \<Longrightarrow> db_ok H db"
proof (induction rule: beta_reach.induct)
  case beta_start
  show ?case by (rule empty_db_ok)
next
  case (beta_attempt db cmd f)
  then show ?case
    using run_attempt_db [of f "command_tx H cmd" db] run_transaction_ok [of H db cmd] by auto
qed

end
