(* ===== verification/BetaIssuer.thy ===== *)
theory BetaIssuer
  imports BetaTypes
begin

text \<open>
  The cryptography of invitations (\<open>beta_access/invitation.rs\<close>) and the hashed rate-limit keys
  (\<open>beta_access.rs\<close>). The primitives of the \<open>ring\<close> library under the configured keys and the bytes
  drawn from the system's generator are parameters; everything around them is the source's.
\<close>

section \<open>The primitives\<close>

datatype configuration_error = InvitationCryptography | Randomness | RateLimitKey

text \<open>HMAC-SHA256 under the authenticator key and AES-256-GCM under the encryption key.\<close>

record crypto =
  cr_sign :: "nat list \<Rightarrow> nat list"
  cr_verify :: "nat list \<Rightarrow> nat list \<Rightarrow> bool"
  cr_seal :: "nat list \<Rightarrow> nat list \<Rightarrow> nat list \<Rightarrow> nat list option"
  cr_open :: "nat list \<Rightarrow> nat list \<Rightarrow> nat list \<Rightarrow> nat list option"

definition octets :: "nat list \<Rightarrow> bool" where
  "octets bs \<longleftrightarrow> (\<forall>b\<in>set bs. b < 256)"

text \<open>What the library documents: a tag has 32 bytes and only the tag of a message verifies; sealing
  appends a tag of 16 bytes and opening undoes it under the same nonce and associated data.\<close>

definition crypto_ok :: "crypto \<Rightarrow> bool" where
  "crypto_ok cr \<longleftrightarrow>
     (\<forall>m. length (cr_sign cr m) = 32 \<and> octets (cr_sign cr m)) \<and>
     (\<forall>m t. cr_verify cr m t \<longleftrightarrow> t = cr_sign cr m) \<and>
     (\<forall>n a p c. cr_seal cr n a p = Some c \<longrightarrow> octets p \<longrightarrow>
        length c = length p + MAX_TAG_LEN \<and> octets c \<and> cr_open cr n a c = Some p)"

text \<open>The three values drawn for an invitation; \<open>None\<close> where the generator fails.\<close>

record draws =
  dr_id :: "nat list option"
  dr_code :: "nat list option"
  dr_nonce :: "nat list option"

definition draws_ok :: "draws \<Rightarrow> bool" where
  "draws_ok d \<longleftrightarrow>
     (\<forall>bs. dr_id d = Some bs \<longrightarrow> length bs = RANDOM_VALUE_BYTES \<and> octets bs) \<and>
     (\<forall>bs. dr_code d = Some bs \<longrightarrow> length bs = RANDOM_VALUE_BYTES \<and> octets bs) \<and>
     (\<forall>bs. dr_nonce d = Some bs \<longrightarrow> length bs = NONCE_BYTES \<and> octets bs)"

section \<open>Issuing, verifying and recovering\<close>

definition in_crypto :: "unit + 'a \<Rightarrow> configuration_error + 'a" where
  "in_crypto r = (case r of Inl _ \<Rightarrow> Inl InvitationCryptography | Inr x \<Rightarrow> Inr x)"

definition random_hex :: "nat list option \<Rightarrow> configuration_error + string" where
  "random_hex bytes = (case bytes of None \<Rightarrow> Inl Randomness | Some bs \<Rightarrow> Inr (hex bs))"

record prepared =
  pi_code :: string
  pi_stored :: stored_invitation

definition lookup_id :: "crypto \<Rightarrow> string \<Rightarrow> configuration_error + string" where
  "lookup_id cr c = bind_res (in_crypto (lookup_message c)) (\<lambda>context. Inr (hex (cr_sign cr context)))"

definition new_invitation ::
  "string \<Rightarrow> normalized_email \<Rightarrow> int \<Rightarrow> string \<Rightarrow> string \<Rightarrow> string \<Rightarrow> string \<Rightarrow> string \<Rightarrow> stored_invitation" where
  "new_invitation request_id email now authenticator ciphertext nonce i lookup =
     \<lparr>si_authenticator = authenticator, si_authenticator_version = AUTHENTICATOR_VERSION,
      si_ciphertext = ciphertext, si_created_at = now, si_delivery_attempt = 1,
      si_delivery_retryable = None, si_delivery_status = DeliveryPending, si_email = email,
      si_encryption_nonce = nonce, si_encryption_version = ENCRYPTION_VERSION, si_id = i,
      si_lookup_id = lookup, si_provider_message_id = None, si_record_version = RECORD_VERSION,
      si_redeemed_at = None, si_redeemed_by = None, si_request_id = request_id, si_status = Issued\<rparr>"

definition prepare :: "crypto \<Rightarrow> draws \<Rightarrow> string \<Rightarrow> normalized_email \<Rightarrow> int \<Rightarrow> configuration_error + prepared" where
  "prepare cr d request_id email now =
     bind_res (random_hex (dr_id d)) (\<lambda>i.
     bind_res (random_hex (dr_code d)) (\<lambda>c.
     bind_res (lookup_id cr c) (\<lambda>lookup.
     bind_res (in_crypto (canonical_context i email)) (\<lambda>context.
     bind_res (in_crypto (append_field context (text_of c))) (\<lambda>authenticated.
     bind_res (ok_or Randomness (dr_nonce d)) (\<lambda>nonce.
     bind_res (ok_or InvitationCryptography (cr_seal cr nonce context (text_of c))) (\<lambda>ciphertext.
       Inr \<lparr>pi_code = c,
            pi_stored = new_invitation request_id email now (hex (cr_sign cr authenticated))
              (hex ciphertext) (hex nonce) i lookup\<rparr>)))))))"

definition verify :: "crypto \<Rightarrow> stored_invitation \<Rightarrow> normalized_email \<Rightarrow> string \<Rightarrow> bool" where
  "verify cr stored email c =
     (if \<not> valid_shape stored \<or> si_email stored \<noteq> email \<or> \<not> opaque_hex c RANDOM_VALUE_BYTES then False
      else if Inr (si_lookup_id stored) \<noteq> lookup_id cr c then False
      else (case authenticated_message (si_id stored) email c of
              Inl _ \<Rightarrow> False
            | Inr authenticated \<Rightarrow>
                (case decode_hex (si_authenticator stored) of
                   Inl _ \<Rightarrow> False
                 | Inr expected \<Rightarrow> cr_verify cr authenticated expected)))"

definition decrypt :: "crypto \<Rightarrow> stored_invitation \<Rightarrow> configuration_error + string" where
  "decrypt cr stored =
     (if \<not> valid_shape stored then Inl InvitationCryptography
      else bind_res (in_crypto (decode_fixed NONCE_BYTES (si_encryption_nonce stored))) (\<lambda>nonce.
        bind_res (in_crypto (decode_hex (si_ciphertext stored))) (\<lambda>ciphertext.
        bind_res (in_crypto (canonical_context (si_id stored) (si_email stored))) (\<lambda>context.
        bind_res (ok_or InvitationCryptography (cr_open cr nonce context ciphertext)) (\<lambda>plaintext.
          if \<not> is_ascii plaintext \<or> \<not> opaque_hex (ascii_string plaintext) RANDOM_VALUE_BYTES
          then Inl InvitationCryptography
          else Inr (ascii_string plaintext))))))"

definition recover :: "crypto \<Rightarrow> stored_invitation \<Rightarrow> configuration_error + prepared" where
  "recover cr stored =
     bind_res (decrypt cr stored) (\<lambda>c.
       if \<not> verify cr stored (si_email stored) c then Inl InvitationCryptography
       else Inr \<lparr>pi_code = c, pi_stored = stored\<rparr>)"

text \<open>\<open>InvitationIssuer::new\<close> over the library's keyed primitives.\<close>

definition issuer_new :: "(nat list \<Rightarrow> nat list \<Rightarrow> crypto) \<Rightarrow> nat list \<Rightarrow> nat list \<Rightarrow> configuration_error + crypto" where
  "issuer_new ring authenticator_key encryption_key =
     (if authenticator_key = encryption_key then Inl InvitationCryptography
      else Inr (ring authenticator_key encryption_key))"

section \<open>Delivery\<close>

record delivery_request =
  dq_delivery_attempt :: nat
  dq_invitation_id :: string
  dq_email :: normalized_email
  dq_code :: string

datatype delivery_error = DeliveryRejected | DeliveryRetryable

definition delivery_request_of :: "prepared \<Rightarrow> nat \<Rightarrow> delivery_request" where
  "delivery_request_of p delivery_attempt =
     \<lparr>dq_delivery_attempt = delivery_attempt, dq_invitation_id = si_id (pi_stored p),
      dq_email = si_email (pi_stored p), dq_code = pi_code p\<rparr>"

text \<open>The outcome of \<open>deliver\<close>, from what the provider answers.\<close>

definition deliver :: "delivery_error + string \<Rightarrow> delivery_attempt" where
  "deliver answer = (case answer of
     Inr provider_message_id \<Rightarrow> AttemptSent provider_message_id
   | Inl error \<Rightarrow> AttemptFailed (error = DeliveryRetryable))"

section \<open>Rate-limit keys\<close>

definition hasher_new :: "(nat list \<Rightarrow> nat list \<Rightarrow> nat list) \<Rightarrow> nat list \<Rightarrow> configuration_error + (nat list \<Rightarrow> nat list)" where
  "hasher_new hmac key = (if length key < 32 \<or> 256 < length key then Inl RateLimitKey else Inr (hmac key))"

definition identifier_message :: "string \<Rightarrow> nat list \<Rightarrow> nat list" where
  "identifier_message purpose value =
     text_of ''chenchess-beta-access-rate-limit-v1'' @ [0] @ text_of purpose @ [0] @ value"

definition hashed_identifier :: "(nat list \<Rightarrow> nat list) \<Rightarrow> string \<Rightarrow> nat list \<Rightarrow> string" where
  "hashed_identifier sign purpose value = hex (sign (identifier_message purpose value))"

section \<open>What is issued can be verified and recovered\<close>

lemma crypto_sealed:
  assumes "crypto_ok cr" and "cr_seal cr n a p = Some c" and "octets p"
  shows "length c = length p + MAX_TAG_LEN" and "octets c" and "cr_open cr n a c = Some p"
proof -
  have "\<forall>n a p c. cr_seal cr n a p = Some c \<longrightarrow> octets p \<longrightarrow>
      length c = length p + MAX_TAG_LEN \<and> octets c \<and> cr_open cr n a c = Some p"
    using assms(1) unfolding crypto_ok_def by (elim conjE)
  then show "length c = length p + MAX_TAG_LEN" "octets c" "cr_open cr n a c = Some p"
    using assms(2,3) by simp_all
qed

lemma octets_text: "octets (text_of s)"
  by (auto simp: octets_def text_of_def)

lemma in_crypto_Inr: "in_crypto r = Inr x \<longleftrightarrow> r = Inr x"
  by (auto simp: in_crypto_def split: sum.splits)

lemma random_hex_Inr: "random_hex b = Inr s \<longleftrightarrow> (\<exists>bs. b = Some bs \<and> s = hex bs)"
  by (auto simp: random_hex_def split: option.splits)

lemma lookup_id_Inr: "lookup_id cr c = Inr l \<longleftrightarrow> (\<exists>m. lookup_message c = Inr m \<and> l = hex (cr_sign cr m))"
  by (auto simp: lookup_id_def bind_res_Inr_conv in_crypto_Inr)

lemma hex_opaque: "octets bs \<Longrightarrow> length bs = n \<Longrightarrow> opaque_hex (hex bs) n"
  using hex_lower by (auto simp: octets_def)

lemma decode_octets: "octets bs \<Longrightarrow> decode_hex (hex bs) = Inr bs"
  using decode_hex_hex by (auto simp: octets_def)

text \<open>The values an invitation is made of.\<close>

definition made_of ::
  "crypto \<Rightarrow> draws \<Rightarrow> string \<Rightarrow> normalized_email \<Rightarrow> int \<Rightarrow> prepared \<Rightarrow>
   nat list \<times> nat list \<times> nat list \<Rightarrow> nat list \<times> nat list \<times> nat list \<Rightarrow> string \<Rightarrow> bool" where
  "made_of cr d rid email now p = (\<lambda>(ib, cb, nonce) (ctx, auth, ct) lk.
     dr_id d = Some ib \<and> dr_code d = Some cb \<and> dr_nonce d = Some nonce \<and>
     lookup_id cr (hex cb) = Inr lk \<and> canonical_context (hex ib) email = Inr ctx \<and>
     append_field ctx (text_of (hex cb)) = Inr auth \<and> cr_seal cr nonce ctx (text_of (hex cb)) = Some ct \<and>
     p = \<lparr>pi_code = hex cb, pi_stored = new_invitation rid email now (hex (cr_sign cr auth)) (hex ct) (hex nonce) (hex ib) lk\<rparr>)"

lemma prepare_made_of:
  assumes "prepare cr d rid email now = Inr p"
  obtains ib cb nonce ctx auth ct lk where "made_of cr d rid email now p (ib, cb, nonce) (ctx, auth, ct) lk"
proof -
  from assms obtain ib cb lk ctx auth nonce ct where
    "dr_id d = Some ib" "dr_code d = Some cb" "dr_nonce d = Some nonce"
    "lookup_id cr (hex cb) = Inr lk" "canonical_context (hex ib) email = Inr ctx"
    "append_field ctx (text_of (hex cb)) = Inr auth" "cr_seal cr nonce ctx (text_of (hex cb)) = Some ct"
    "\<lparr>pi_code = hex cb, pi_stored = new_invitation rid email now (hex (cr_sign cr auth)) (hex ct) (hex nonce) (hex ib) lk\<rparr> = p"
    unfolding prepare_def bind_res_Inr_conv in_crypto_Inr random_hex_Inr ok_or_Inr_conv sum.inject by blast
  then show thesis using that [of ib cb nonce ctx auth ct lk] by (simp add: made_of_def)
qed

lemma made_of_shape:
  assumes "crypto_ok cr" and "draws_ok d" and "opaque_request_id rid"
    and "made_of cr d rid email now p (ib, cb, nonce) (ctx, auth, ct) lk"
  shows "valid_shape (pi_stored p)" and "opaque_hex (pi_code p) RANDOM_VALUE_BYTES"
proof -
  have p: "dr_id d = Some ib" "dr_code d = Some cb" "dr_nonce d = Some nonce"
    "lookup_id cr (hex cb) = Inr lk" "cr_seal cr nonce ctx (text_of (hex cb)) = Some ct" "pi_code p = hex cb"
    "pi_stored p = new_invitation rid email now (hex (cr_sign cr auth)) (hex ct) (hex nonce) (hex ib) lk"
    using assms(4) by (simp_all add: made_of_def)
  have o: "opaque_hex (hex ib) RANDOM_VALUE_BYTES" "opaque_hex (hex cb) RANDOM_VALUE_BYTES"
    "opaque_hex (hex nonce) NONCE_BYTES"
    using assms(2) p(1-3) by (auto simp: draws_ok_def intro: hex_opaque)
  obtain m where lk: "lk = hex (cr_sign cr m)" using p(4) by (auto simp: lookup_id_Inr)
  have t: "opaque_hex (hex (cr_sign cr m)) 32" for m using assms(1) by (simp add: crypto_ok_def hex_opaque)
  have "octets ct" "length ct = length (text_of (hex cb)) + MAX_TAG_LEN"
    by (rule crypto_sealed [OF assms(1) p(5) octets_text])+
  then have c: "opaque_hex (hex ct) (RANDOM_VALUE_BYTES * 2 + MAX_TAG_LEN)"
    using o(2) by (intro hex_opaque) (simp_all add: opaque_hex_def text_of_def)
  have r: "opaque_hex rid 32" using assms(3) by (simp add: opaque_request_id_def opaque_hex_def)
  show "valid_shape (pi_stored p)"
    unfolding p(7) new_invitation_def valid_shape_def redemption_shape_def delivery_shape_def
    using o t c r by (simp add: lk)
  show "opaque_hex (pi_code p) RANDOM_VALUE_BYTES" using o(2) p(6) by simp
qed

lemma prepare_shape:
  assumes "crypto_ok cr" and "draws_ok d" and "opaque_request_id rid" and "prepare cr d rid email now = Inr p"
  shows "valid_shape (pi_stored p)" and "si_status (pi_stored p) = Issued"
    and "si_delivery_status (pi_stored p) = DeliveryPending" and "si_request_id (pi_stored p) = rid"
    and "si_email (pi_stored p) = email" and "si_delivery_attempt (pi_stored p) = 1"
proof -
  obtain ib cb nonce ctx auth ct lk where mk: "made_of cr d rid email now p (ib, cb, nonce) (ctx, auth, ct) lk"
    using prepare_made_of [OF assms(4)] .
  show "valid_shape (pi_stored p)" by (rule made_of_shape(1) [OF assms(1-3) mk])
  show "si_status (pi_stored p) = Issued" "si_delivery_status (pi_stored p) = DeliveryPending"
    "si_request_id (pi_stored p) = rid" "si_email (pi_stored p) = email" "si_delivery_attempt (pi_stored p) = 1"
    using mk by (simp_all add: made_of_def new_invitation_def)
qed

lemma prepare_verify:
  assumes "crypto_ok cr" and "draws_ok d" and "opaque_request_id rid" and "prepare cr d rid email now = Inr p"
  shows "verify cr (pi_stored p) email (pi_code p)" and "recover cr (pi_stored p) = Inr p"
proof -
  obtain ib cb nonce ctx auth ct lk where mk: "made_of cr d rid email now p (ib, cb, nonce) (ctx, auth, ct) lk"
    using prepare_made_of [OF assms(4)] .
  then have p: "dr_nonce d = Some nonce" "lookup_id cr (hex cb) = Inr lk" "canonical_context (hex ib) email = Inr ctx"
    "append_field ctx (text_of (hex cb)) = Inr auth" "cr_seal cr nonce ctx (text_of (hex cb)) = Some ct"
    and c: "pi_code p = hex cb"
    and s: "pi_stored p = new_invitation rid email now (hex (cr_sign cr auth)) (hex ct) (hex nonce) (hex ib) lk"
    by (simp_all add: made_of_def)
  note shape = made_of_shape [OF assms(1-3) mk]
  have tag: "octets (cr_sign cr m)" "cr_verify cr m (cr_sign cr m)" for m using assms(1) by (simp_all add: crypto_ok_def)
  have am: "authenticated_message (hex ib) email (hex cb) = Inr auth"
    using p(3,4) by (simp add: authenticated_message_def)
  have fields: "si_email (pi_stored p) = email" "si_lookup_id (pi_stored p) = lk" "si_id (pi_stored p) = hex ib"
    "si_authenticator (pi_stored p) = hex (cr_sign cr auth)" "si_encryption_nonce (pi_stored p) = hex nonce"
    "si_ciphertext (pi_stored p) = hex ct" by (simp_all add: s new_invitation_def)
  show v: "verify cr (pi_stored p) email (pi_code p)"
    using shape p(2) am tag fields c by (simp add: verify_def decode_octets)
  have ct: "octets ct" "cr_open cr nonce ctx ct = Some (text_of (hex cb))"
    by (rule crypto_sealed [OF assms(1) p(5) octets_text])+
  have n: "decode_fixed NONCE_BYTES (hex nonce) = Inr nonce"
    using assms(2) p(1) by (simp add: decode_fixed_def draws_ok_def decode_octets)
  have asc: "is_ascii (text_of (hex cb))"
    using shape(2) c
    by (auto simp: is_ascii_def text_of_def opaque_hex_def list_all_iff is_lower_hex_def is_ascii_digit_def)
  have "decrypt cr (pi_stored p) = Inr (hex cb)"
    using shape c p(3) n ct asc fields by (simp add: decrypt_def decode_octets in_crypto_def ascii_text)
  then show "recover cr (pi_stored p) = Inr p"
    using v c fields(1) by (simp add: recover_def)
qed

text \<open>A code that verifies against an invitation issued for an address is the code issued, unless the
  messages of the two codes have the same tag.\<close>

lemma verify_issued:
  assumes "crypto_ok cr" and "prepare cr d rid email now = Inr p" and "verify cr (pi_stored p) e c"
  shows "e = email \<and> (c = pi_code p \<or>
    (\<exists>m m'. authenticated_message (si_id (pi_stored p)) e c = Inr m \<and>
       authenticated_message (si_id (pi_stored p)) e (pi_code p) = Inr m' \<and> m \<noteq> m' \<and> cr_sign cr m = cr_sign cr m'))"
proof -
  obtain ib cb nonce ctx auth ct lk where mk: "made_of cr d rid email now p (ib, cb, nonce) (ctx, auth, ct) lk"
    using prepare_made_of [OF assms(2)] .
  then have p: "pi_code p = hex cb" "canonical_context (hex ib) email = Inr ctx"
    "append_field ctx (text_of (hex cb)) = Inr auth" "si_id (pi_stored p) = hex ib"
    "si_authenticator (pi_stored p) = hex (cr_sign cr auth)" "si_email (pi_stored p) = email"
    by (simp_all add: made_of_def new_invitation_def)
  have "octets (cr_sign cr auth)" using assms(1) by (simp add: crypto_ok_def)
  then have "decode_hex (si_authenticator (pi_stored p)) = Inr (cr_sign cr auth)" by (simp add: p decode_octets)
  then obtain m where m: "authenticated_message (hex ib) e c = Inr m" "cr_verify cr m (cr_sign cr auth)"
    using assms(3) p(4) by (auto simp: verify_def split: if_splits sum.splits)
  then have "cr_sign cr m = cr_sign cr auth" using assms(1) by (simp add: crypto_ok_def)
  moreover have e: "e = email" using assms(3) p(6) by (auto simp: verify_def split: if_splits)
  moreover have "authenticated_message (hex ib) email (hex cb) = Inr auth"
    using p(2,3) by (simp add: authenticated_message_def)
  moreover have "c = hex cb" if "m = auth" using authenticated_message_inj m(1) calculation that by blast
  ultimately show ?thesis using m(1) p(1,4) by auto
qed

end
