(* ===== verification/BetaRuntime.thy ===== *)
theory BetaRuntime
  imports BetaReach BetaIssuer "HOL-Library.Sublist"
begin

text \<open>
  The runtime of Beta Access (\<open>beta_access.rs\<close>, \<open>beta_access/redemption.rs\<close>): each operation checks
  its input and its configuration, calls the store, the issuer and the delivery provider in the
  source's order, and reports. The world is the database and the invitations handed to the provider.
  What other tasks and the database do around each store call is an argument of the operation, as is
  what the provider answers.
\<close>

section \<open>Configuration and results\<close>

record issuer =
  is_crypto :: crypto
  is_answer :: "delivery_request \<Rightarrow> delivery_error + string"

record enabled_beta_access =
  en_hasher :: "nat list \<Rightarrow> nat list"
  en_invitation :: "issuer option"

datatype beta_mode = BypassAuthorization | ModeUnavailable | Enabled enabled_beta_access

fun enabled :: "beta_mode \<Rightarrow> enabled_beta_access option" where
  "enabled (Enabled e) = Some e"
| "enabled BypassAuthorization = None"
| "enabled ModeUnavailable = None"

datatype invitation_error =
    InvUnavailable | InvInvalidRequest | InvConfiguration configuration_error | InvStore beta_error

datatype authorization_error = AuthRequired | AuthUnavailable | AuthStore beta_error

datatype grant_result = Delivered | GrantDeliveryFailed | GrantAlready

datatype retry_result =
    Redelivered | RetryDeliveryFailed | NotIssued | NotRetryable | RetryResultRevoked | RetryResultRedeemed

datatype redemption_result =
    ResultGranted | WrongAccount | VerificationRequired | ResultRevoked | ResultInvalid
  | ResultAlreadyHandled | ResultRateLimited

datatype redemption_identity = Unverified string | Verified string normalized_email

fun identity_player :: "redemption_identity \<Rightarrow> string" where
  "identity_player (Unverified p) = p"
| "identity_player (Verified p _) = p"

section \<open>The world\<close>

record beta_world =
  w_db :: beta_db
  w_sent :: "delivery_request list"

definition fault_error :: "fault \<Rightarrow> beta_error option" where
  "fault_error f = (case f of NoFault \<Rightarrow> None | FailsWith e \<Rightarrow> Some e | UnreportedCommit e \<Rightarrow> Some e)"

definition read_call :: "attempt \<Rightarrow> (beta_db \<Rightarrow> beta_error + 'a) \<Rightarrow> beta_db \<Rightarrow> beta_db \<times> (beta_error + 'a)" where
  "read_call a get db =
     (let db' = fst a db
      in (db', case fault_error (snd a) of Some e \<Rightarrow> Inl e | None \<Rightarrow> get db'))"

text \<open>A store call followed by the rest of an operation; an error of the store ends it.\<close>

definition call_store ::
  "beta_world \<Rightarrow> (beta_db \<Rightarrow> beta_db \<times> (beta_error + 'a)) \<Rightarrow>
   ('a \<Rightarrow> beta_world \<Rightarrow> beta_world \<times> (invitation_error + 'b)) \<Rightarrow> beta_world \<times> (invitation_error + 'b)" where
  "call_store w call k =
     (case call (w_db w) of
        (db, Inl e) \<Rightarrow> (w\<lparr>w_db := db\<rparr>, Inl (InvStore e))
      | (db, Inr x) \<Rightarrow> k x (w\<lparr>w_db := db\<rparr>))"

record store_env =
  se_read :: attempt
  se_first :: "attempt list"
  se_second :: "attempt list"

section \<open>Operations\<close>

definition runtime_submit ::
  "beta_mode \<Rightarrow> attempt list \<Rightarrow> normalized_email \<Rightarrow> string \<Rightarrow> int \<Rightarrow> beta_db \<Rightarrow> beta_db \<times> (beta_error + unit)" where
  "runtime_submit mode attempts email source_ip now db =
     (case enabled mode of
        None \<Rightarrow> (db, Inl ErrUnavailable)
      | Some en \<Rightarrow>
          let s = \<lparr>sub_email = email,
                   sub_email_rate_key = hashed_identifier (en_hasher en) ''email'' (text_of (as_str email)),
                   sub_ip_rate_key = hashed_identifier (en_hasher en) ''source-ip'' (text_of source_ip),
                   sub_now = now\<rparr>;
              (db', result) = store_submit attempts s db
          in (db', bind_res result (\<lambda>_. Inr ())))"

definition require_access ::
  "(string \<Rightarrow> string) \<Rightarrow> beta_mode \<Rightarrow> attempt \<Rightarrow> string \<Rightarrow> beta_db \<Rightarrow> beta_db \<times> (authorization_error + unit)" where
  "require_access path_of mode a player_id db =
     (case mode of
        BypassAuthorization \<Rightarrow> (db, Inr ())
      | ModeUnavailable \<Rightarrow> (db, Inl AuthUnavailable)
      | Enabled _ \<Rightarrow>
          (case read_call a (player_has_access path_of player_id) db of
             (db', Inr True) \<Rightarrow> (db', Inr ())
           | (db', Inr False) \<Rightarrow> (db', Inl AuthRequired)
           | (db', Inl e) \<Rightarrow> (db', Inl (AuthStore e))))"

record request_filter =
  rf_email_contains :: "string option"
  rf_status :: "request_status option"

definition contains_text :: "string \<Rightarrow> string \<Rightarrow> bool" where
  "contains_text text query = list_ex (prefix query) (suffixes text)"

definition filter_matches :: "request_filter \<Rightarrow> beta_request \<Rightarrow> bool" where
  "filter_matches f request \<longleftrightarrow>
     (case rf_status f of None \<Rightarrow> True | Some status \<Rightarrow> br_status request = status) \<and>
     (case rf_email_contains f of None \<Rightarrow> True
      | Some query \<Rightarrow> contains_text (as_str (br_email request)) query)"

definition admin_order :: "admin_request \<Rightarrow> admin_request \<Rightarrow> ordering" where
  "admin_order l r = then_with (compare (br_created_at (ar_request r)) (br_created_at (ar_request l)))
     (compare (br_id (ar_request l)) (br_id (ar_request r)))"

definition MAX_RESULTS :: nat where "MAX_RESULTS = 100"

text \<open>The two reads of the list, the second made only when a request has been redeemed.\<close>

definition list_call :: "attempt \<Rightarrow> attempt \<Rightarrow> beta_db \<Rightarrow> beta_db \<times> (beta_error + admin_request list)" where
  "list_call a b db =
     (case read_call a request_entries db of
        (db', Inl e) \<Rightarrow> (db', Inl e)
      | (db', Inr entries) \<Rightarrow>
          if has_redeemed entries then read_call b (list_requests db') db'
          else (db', list_requests db' db'))"

definition runtime_list ::
  "beta_mode \<Rightarrow> attempt \<Rightarrow> attempt \<Rightarrow> request_filter \<Rightarrow> beta_db \<Rightarrow> beta_db \<times> (beta_error + admin_request list)" where
  "runtime_list mode a b f db =
     (case enabled mode of
        None \<Rightarrow> (db, Inl ErrUnavailable)
      | Some _ \<Rightarrow>
          let (db', result) = list_call a b db
          in (db', bind_res result (\<lambda>requests.
               Inr (take MAX_RESULTS (sort_by admin_order
                 (filter (\<lambda>request. filter_matches f (ar_request request)) requests))))))"

definition redeemed_player_id ::
  "beta_mode \<Rightarrow> store_env \<Rightarrow> string \<Rightarrow> beta_world \<Rightarrow> beta_world \<times> (invitation_error + string option)" where
  "redeemed_player_id mode env request_id w =
     (if \<not> opaque_request_id request_id then (w, Inl InvInvalidRequest)
      else (case enabled mode of
        None \<Rightarrow> (w, Inl InvUnavailable)
      | Some _ \<Rightarrow>
          call_store w (read_call (se_read env) (invitation_target_read request_id)) (\<lambda>target w.
            case target of
              TargetNotIssued \<Rightarrow> (w, Inr None)
            | TargetInvitation invitation \<Rightarrow>
                if si_status invitation \<noteq> Redeemed then (w, Inr None)
                else (case si_redeemed_by invitation of
                   None \<Rightarrow> (w, Inl (InvStore ErrInvalidRecord))
                 | Some player \<Rightarrow> (w, Inr (Some player))))))"

text \<open>Handing an invitation to the provider and recording what came of it.\<close>

definition deliver_and_record ::
  "issuer \<Rightarrow> attempt list \<Rightarrow> prepared \<Rightarrow> string \<Rightarrow> nat \<Rightarrow> (bool \<Rightarrow> 'r) \<Rightarrow> beta_world \<Rightarrow>
   beta_world \<times> (invitation_error + 'r)" where
  "deliver_and_record iss attempts p request_id delivery_attempt result w =
     (let request = delivery_request_of p delivery_attempt;
          attempt = deliver (is_answer iss request)
      in call_store (w\<lparr>w_sent := w_sent w @ [request]\<rparr>)
           (store_record_delivery attempts (si_id (pi_stored p)) request_id delivery_attempt attempt)
           (\<lambda>_ w. (w, Inr (result (case attempt of AttemptSent _ \<Rightarrow> True | AttemptFailed _ \<Rightarrow> False)))))"

definition runtime_grant ::
  "beta_mode \<Rightarrow> store_env \<Rightarrow> draws \<Rightarrow> string \<Rightarrow> int \<Rightarrow> beta_world \<Rightarrow> beta_world \<times> (invitation_error + grant_result)" where
  "runtime_grant mode env d request_id now w =
     (if \<not> opaque_request_id request_id then (w, Inl InvInvalidRequest)
      else (case enabled mode of
        None \<Rightarrow> (w, Inl InvUnavailable)
      | Some en \<Rightarrow>
          (case en_invitation en of
             None \<Rightarrow> (w, Inl InvUnavailable)
           | Some iss \<Rightarrow>
               call_store w (read_call (se_read env) (grant_target_read request_id)) (\<lambda>target w.
                 case target of
                   TargetAlreadyGranted \<Rightarrow> (w, Inr GrantAlready)
                 | TargetPending email \<Rightarrow>
                     (case prepare (is_crypto iss) d request_id email now of
                        Inl e \<Rightarrow> (w, Inl (InvConfiguration e))
                      | Inr invitation \<Rightarrow>
                          call_store w (store_commit_grant (se_first env) (pi_stored invitation))
                            (\<lambda>commit w. case commit of
                               GrantAlreadyGranted \<Rightarrow> (w, Inr GrantAlready)
                             | GrantIssued \<Rightarrow>
                                 deliver_and_record iss (se_second env) invitation request_id
                                   (si_delivery_attempt (pi_stored invitation))
                                   (\<lambda>sent. if sent then Delivered else GrantDeliveryFailed) w))))))"

definition runtime_retry_delivery ::
  "beta_mode \<Rightarrow> store_env \<Rightarrow> string \<Rightarrow> beta_world \<Rightarrow> beta_world \<times> (invitation_error + retry_result)" where
  "runtime_retry_delivery mode env request_id w =
     (if \<not> opaque_request_id request_id then (w, Inl InvInvalidRequest)
      else (case enabled mode of
        None \<Rightarrow> (w, Inl InvUnavailable)
      | Some en \<Rightarrow>
          (case en_invitation en of
             None \<Rightarrow> (w, Inl InvUnavailable)
           | Some iss \<Rightarrow>
               call_store w (read_call (se_read env) (invitation_target_read request_id)) (\<lambda>target w.
                 case target of
                   TargetNotIssued \<Rightarrow> (w, Inr NotIssued)
                 | TargetInvitation stored \<Rightarrow>
                     (case si_status stored of
                        Revoked \<Rightarrow> (w, Inr RetryResultRevoked)
                      | Redeemed \<Rightarrow> (w, Inr RetryResultRedeemed)
                      | Issued \<Rightarrow>
                          if si_delivery_status stored \<noteq> DeliveryFailed \<or> si_delivery_retryable stored \<noteq> Some True
                          then (w, Inr NotRetryable)
                          else (case recover (is_crypto iss) stored of
                             Inl e \<Rightarrow> (w, Inl (InvConfiguration e))
                           | Inr invitation \<Rightarrow>
                               call_store w (store_begin_retry (se_first env) (si_id stored)
                                   request_id (si_delivery_attempt stored))
                                 (\<lambda>commit w. case commit of
                                    RetryNotRetryable \<Rightarrow> (w, Inr NotRetryable)
                                  | RetryRevoked \<Rightarrow> (w, Inr RetryResultRevoked)
                                  | RetryRedeemed \<Rightarrow> (w, Inr RetryResultRedeemed)
                                  | RetryStarted delivery_attempt \<Rightarrow>
                                      deliver_and_record iss (se_second env) invitation request_id delivery_attempt
                                        (\<lambda>sent. if sent then Redelivered else RetryDeliveryFailed) w)))))))"

definition runtime_revoke ::
  "beta_mode \<Rightarrow> store_env \<Rightarrow> string \<Rightarrow> beta_world \<Rightarrow> beta_world \<times> (invitation_error + revoke_result)" where
  "runtime_revoke mode env request_id w =
     (if \<not> opaque_request_id request_id then (w, Inl InvInvalidRequest)
      else (case enabled mode of
        None \<Rightarrow> (w, Inl InvUnavailable)
      | Some _ \<Rightarrow> call_store w (store_revoke (se_first env) request_id) (\<lambda>r w. (w, Inr r))))"

definition runtime_revoke_access ::
  "(string \<Rightarrow> string) \<Rightarrow> beta_mode \<Rightarrow> store_env \<Rightarrow> string \<Rightarrow> beta_world \<Rightarrow>
   beta_world \<times> (invitation_error + access_revoke_result)" where
  "runtime_revoke_access path_of mode env request_id w =
     (if \<not> opaque_request_id request_id then (w, Inl InvInvalidRequest)
      else (case enabled mode of
        None \<Rightarrow> (w, Inl InvUnavailable)
      | Some _ \<Rightarrow> call_store w (store_revoke_access (se_first env) path_of request_id) (\<lambda>r w. (w, Inr r))))"

definition runtime_redeem ::
  "(string \<Rightarrow> string) \<Rightarrow> beta_mode \<Rightarrow> store_env \<Rightarrow> redemption_identity \<Rightarrow> nat list \<Rightarrow> string \<Rightarrow> int \<Rightarrow> beta_world \<Rightarrow>
   beta_world \<times> (invitation_error + redemption_result)" where
  "runtime_redeem path_of mode env identity input source_ip now w =
     (case enabled mode of
        None \<Rightarrow> (w, Inl InvUnavailable)
      | Some en \<Rightarrow>
          (case en_invitation en of
             None \<Rightarrow> (w, Inl InvUnavailable)
           | Some iss \<Rightarrow>
               let c = parse_code input;
                   lookup = (case (identity, c) of
                      (Verified _ _, Some c) \<Rightarrow> bind_res (lookup_id (is_crypto iss) c) (\<lambda>l. Inr (Some l))
                    | _ \<Rightarrow> Inr None)
               in (case lookup of
                 Inl e \<Rightarrow> (w, Inl (InvConfiguration e))
               | Inr lookup \<Rightarrow>
                   let a = \<lparr>ra_ip_rate_key = hashed_identifier (en_hasher en) ''redemption-source-ip'' (text_of source_ip),
                            ra_lookup_id = lookup, ra_now = now,
                            ra_player_rate_key = hashed_identifier (en_hasher en) ''redemption-player''
                              (text_of (identity_player identity))\<rparr>
                   in call_store w (store_redemption_target (se_first env) a) (\<lambda>target w.
                     if target = RedeemRateLimited then (w, Inr ResultRateLimited)
                     else (case identity of
                       Unverified _ \<Rightarrow> (w, Inr VerificationRequired)
                     | Verified player_id email \<Rightarrow>
                         (case target of
                            RedeemInvalid \<Rightarrow> (w, Inr ResultInvalid)
                          | RedeemRevoked \<Rightarrow> (w, Inr ResultRevoked)
                          | RedeemAlreadyHandled \<Rightarrow> (w, Inr ResultAlreadyHandled)
                          | RedeemRateLimited \<Rightarrow> (w, Inr ResultRateLimited)
                          | RedeemCandidate stored \<Rightarrow>
                              (case c of
                                 None \<Rightarrow> (w, Inr ResultInvalid)
                               | Some c \<Rightarrow>
                                   if \<not> verify (is_crypto iss) stored (si_email stored) c then (w, Inr ResultInvalid)
                                   else if si_email stored \<noteq> email then (w, Inr WrongAccount)
                                   else call_store w (store_commit_redemption (se_second env) path_of
                                          (candidate_of stored) player_id now)
                                        (\<lambda>commit w. (w, Inr (case commit of
                                           CommitGranted \<Rightarrow> ResultGranted
                                         | CommitRevoked \<Rightarrow> ResultRevoked
                                         | CommitAlreadyHandled \<Rightarrow> ResultAlreadyHandled))))))))))"

end
