(* ===== verification/BetaProperties.thy ===== *)
theory BetaProperties
  imports BetaRuntime
begin

text \<open>
  Invariants of the Beta Access store and what they give for the runtime: a predicate kept by every
  transaction is kept by every operation of the runtime, under any faults and any interference that
  keeps it.
\<close>

section \<open>Invariants of the store\<close>

definition attempts_keep :: "(beta_db \<Rightarrow> bool) \<Rightarrow> attempt list \<Rightarrow> bool" where
  "attempts_keep P attempts \<longleftrightarrow> (\<forall>a\<in>set attempts. \<forall>d. P d \<longrightarrow> P (fst a d))"

definition env_keeps :: "(beta_db \<Rightarrow> bool) \<Rightarrow> store_env \<Rightarrow> bool" where
  "env_keeps P env \<longleftrightarrow> attempts_keep P (se_read env # se_first env @ se_second env)"

lemma env_keeps_parts:
  assumes "env_keeps P env"
  shows "attempts_keep P [se_read env]" and "attempts_keep P (se_first env)" and "attempts_keep P (se_second env)"
  using assms by (auto simp: env_keeps_def attempts_keep_def)

lemma erase_attempt: "fst (run_attempt f (erase tx) db) = fst (run_attempt f tx db)"
  by (cases f) (simp_all add: run_transaction_def erase_def split: sum.splits prod.splits)

lemma erase_transaction: "fst (run_transaction (erase tx) db) = fst (run_transaction tx db)"
  using erase_attempt [of NoFault] by simp

definition hasher_ok :: "(nat list \<Rightarrow> nat list) \<Rightarrow> bool" where
  "hasher_ok h \<longleftrightarrow> (\<forall>m. length (h m) = 32 \<and> octets (h m))"

lemma hashed_identifier_opaque: "hasher_ok h \<Longrightarrow> opaque_request_id (hashed_identifier h purpose v)"
  using hex_opaque [of "h (identifier_message purpose v)" 32]
  by (simp add: hasher_ok_def hashed_identifier_def opaque_hex_def opaque_request_id_def)

lemma prepare_fresh:
  assumes "prepare cr d rid email now = Inr p"
  shows "freshly_prepared (pi_stored p)" and "si_request_id (pi_stored p) = rid" and "si_email (pi_stored p) = email"
proof -
  obtain ib cb nonce ctx auth ct lk where mk: "made_of cr d rid email now p (ib, cb, nonce) (ctx, auth, ct) lk"
    using prepare_made_of [OF assms] .
  show "freshly_prepared (pi_stored p)" "si_request_id (pi_stored p) = rid" "si_email (pi_stored p) = email"
    using mk by (simp_all add: made_of_def new_invitation_def freshly_prepared_def)
qed

locale store_invariant =
  fixes path_of :: "string \<Rightarrow> string" and P :: "beta_db \<Rightarrow> bool"
  assumes step: "P db \<Longrightarrow> admissible cmd \<Longrightarrow> P (fst (run_transaction (command_tx path_of cmd) db))"
begin

lemma attempt: "P db \<Longrightarrow> admissible cmd \<Longrightarrow> P (fst (run_attempt f (command_tx path_of cmd) db))"
  using run_attempt_db [of f "command_tx path_of cmd" db] step by auto

lemma loop:
  assumes "admissible cmd" and "command_tx path_of cmd = erase tx" and "attempts_keep P attempts" and "P db"
  shows "P (fst (retry_transaction attempts tx db))"
proof (rule retry_transaction_preserves [where P = P])
  show "P (fst (run_attempt f tx d))" if "P d" for f d
    using attempt [OF that assms(1), of f] by (simp add: assms(2) erase_attempt)
qed (use assms(3,4) in \<open>auto simp: attempts_keep_def\<close>)

text \<open>A result of the loop is that of a transaction committed in a state with the invariant.\<close>

lemma loop_result:
  assumes "admissible cmd" and "command_tx path_of cmd = erase tx" and "attempts_keep P attempts" and "P db"
    and "retry_transaction attempts tx db = (db', Inr x)"
  shows "\<exists>d ws. P d \<and> tx d = Inr (ws, x) \<and> apply_writes ws d = Inr db'"
proof (rule retry_transaction_result [OF assms(5), where P = P])
  show "P (fst (run_attempt f tx d))" if "P d" for f d
    using attempt [OF that assms(1), of f] by (simp add: assms(2) erase_attempt)
qed (use assms(3,4) in \<open>auto simp: attempts_keep_def\<close>)

lemma read:
  assumes "attempts_keep P [a]" and "P db"
  shows "P (fst (read_call a get db))"
  using assms by (simp add: attempts_keep_def read_call_def Let_def)

lemma call_keeps:
  assumes "P (fst (call (w_db w)))" and "\<And>x v. P (w_db v) \<Longrightarrow> P (w_db (fst (k x v)))"
  shows "P (w_db (fst (call_store w call k)))"
  using assms by (auto simp: call_store_def split: prod.splits sum.splits)

lemma loop_pair:
  assumes "admissible cmd" and "command_tx path_of cmd = erase tx" and "attempts_keep P attempts" and "P db"
    and "retry_transaction attempts tx db = (db', r)"
  shows "P db'"
  using loop [OF assms(1-4)] assms(5) by simp

lemma record_keeps:
  assumes "attempts_keep P attempts" and "P (w_db w)"
  shows "P (w_db (fst (deliver_and_record iss attempts p rid n res w)))"
  unfolding deliver_and_record_def Let_def store_record_delivery_def
proof (rule call_keeps)
  let ?a = "deliver (is_answer iss (delivery_request_of p n))"
  show "P (fst (retry_transaction attempts (record_delivery_tx (si_id (pi_stored p)) rid n ?a)
      (w_db (w\<lparr>w_sent := w_sent w @ [delivery_request_of p n]\<rparr>))))"
    by (rule loop [of "DoRecordDelivery (si_id (pi_stored p)) rid n ?a"]) (use assms in simp_all)
qed simp

lemma submit_keeps:
  assumes "attempts_keep P attempts" and "P db" and "\<And>en. enabled mode = Some en \<Longrightarrow> hasher_ok (en_hasher en)"
    and "parse_email (text_of (as_str email)) = Inr email"
  shows "P (fst (runtime_submit mode attempts email ip now db))"
proof (cases "enabled mode")
  case (Some en)
  let ?s = "\<lparr>sub_email = email,
    sub_email_rate_key = hashed_identifier (en_hasher en) ''email'' (text_of (as_str email)),
    sub_ip_rate_key = hashed_identifier (en_hasher en) ''source-ip'' (text_of ip), sub_now = now\<rparr>"
  have "well_formed_submission ?s"
    using hashed_identifier_opaque [OF assms(3) [OF Some]] assms(4) by (simp add: well_formed_submission_def)
  then have "P (fst (retry_transaction attempts (submit_tx ?s) db))"
    by (intro loop [of "DoSubmit ?s"]) (simp_all add: assms(1,2))
  then show ?thesis by (auto simp: runtime_submit_def Some Let_def split: prod.splits)
qed (simp add: runtime_submit_def assms(2))

lemma grant_keeps:
  assumes "env_keeps P env" and "P (w_db w)"
  shows "P (w_db (fst (runtime_grant mode env d rid now w)))"
proof -
  note e = env_keeps_parts [OF assms(1)]
  have commit: "P (fst (retry_transaction (se_first env) (commit_grant_tx (pi_stored p)) db))"
    if "prepare cr d rid email now = Inr p" "P db" for cr email p db
    by (rule loop [of "DoGrant (pi_stored p)"]) (use that e in \<open>simp_all add: prepare_fresh\<close>)
  show ?thesis
    using assms(2)
    by (auto simp: runtime_grant_def read [OF e(1)]
        intro!: call_keeps commit record_keeps [OF e(3)] split: option.splits sum.splits grant_target.splits grant_commit.splits)
qed

lemma retry_delivery_keeps:
  assumes "env_keeps P env" and "P (w_db w)"
  shows "P (w_db (fst (runtime_retry_delivery mode env rid w)))"
proof -
  note e = env_keeps_parts [OF assms(1)]
  have begin_retry: "P (fst (retry_transaction (se_first env) (begin_retry_tx iid rid n) db))" if "P db" for iid n db
    by (rule loop [of "DoRetry iid rid n"]) (use that e in simp_all)
  show ?thesis
    using assms(2)
    by (auto simp: runtime_retry_delivery_def read [OF e(1)]
        intro!: call_keeps begin_retry record_keeps [OF e(3)]
        split: option.splits sum.splits invitation_target.splits invitation_status.splits retry_commit.splits)
qed

lemma revoke_keeps:
  assumes "env_keeps P env" and "P (w_db w)"
  shows "P (w_db (fst (runtime_revoke mode env rid w)))"
    and "P (w_db (fst (runtime_revoke_access path_of mode env rid w)))"
proof -
  note e = env_keeps_parts [OF assms(1)]
  have r: "P (fst (retry_transaction (se_first env) (revoke_tx rid) (w_db w)))"
    by (rule loop [of "DoRevoke rid"]) (use assms e in simp_all)
  have a: "P (fst (retry_transaction (se_first env) (revoke_access_tx path_of rid) (w_db w)))"
    by (rule loop [of "DoRevokeAccess rid"]) (use assms e in simp_all)
  show "P (w_db (fst (runtime_revoke mode env rid w)))"
    using assms(2) r by (auto simp: runtime_revoke_def intro!: call_keeps split: option.splits)
  show "P (w_db (fst (runtime_revoke_access path_of mode env rid w)))"
    using assms(2) a by (auto simp: runtime_revoke_access_def intro!: call_keeps split: option.splits)
qed

lemma redeem_keeps:
  assumes "env_keeps P env" and "P (w_db w)"
  shows "P (w_db (fst (runtime_redeem path_of mode env who input ip now w)))"
proof -
  note e = env_keeps_parts [OF assms(1)]
  have tgt: "P (fst (retry_transaction (se_first env) (redemption_target_tx a) db))" if "P db" for a db
    by (rule loop [of "DoRedemptionTarget a"]) (use that e in simp_all)
  have com: "P (fst (retry_transaction (se_second env) (commit_redemption_tx path_of c p now) db))" if "P db" for c p db
    by (rule loop [of "DoRedeem c p now"]) (use that e in simp_all)
  show ?thesis
    using assms(2)
    by (auto simp: runtime_redeem_def Let_def intro!: call_keeps tgt com
        split: option.splits sum.splits redemption_identity.splits redemption_target.splits)
qed

end

locale reachable_invariant = store_invariant +
  assumes start: "P empty_db"
begin

lemma reach: "beta_reach path_of db \<Longrightarrow> P db"
  by (induction rule: beta_reach.induct) (simp_all add: start attempt)

end

section \<open>Consistency\<close>

interpretation consistent: reachable_invariant path_of "db_ok path_of" for path_of
  by unfold_locales (simp_all add: run_transaction_ok empty_db_ok)

section \<open>Invitations evolve\<close>

text \<open>An invitation is never removed, what it was issued with never changes, and once revoked or
  redeemed it stays so.\<close>

definition same_identity :: "stored_invitation \<Rightarrow> stored_invitation \<Rightarrow> bool" where
  "same_identity v v' \<longleftrightarrow> si_id v' = si_id v \<and> si_request_id v' = si_request_id v \<and>
     si_lookup_id v' = si_lookup_id v \<and> si_email v' = si_email v \<and>
     si_authenticator v' = si_authenticator v \<and> si_ciphertext v' = si_ciphertext v \<and>
     si_created_at v' = si_created_at v"

definition follows :: "stored_invitation \<Rightarrow> stored_invitation \<Rightarrow> bool" where
  "follows v v' \<longleftrightarrow> same_identity v v' \<and>
     (si_status v = Issued \<or> si_status v' = si_status v \<and> si_redeemed_by v' = si_redeemed_by v \<and>
       si_redeemed_at v' = si_redeemed_at v)"

definition evolves :: "beta_db \<Rightarrow> beta_db \<Rightarrow> bool" where
  "evolves db db' \<longleftrightarrow> (\<forall>i v. bt_get (db_invitations db) i = Some v \<longrightarrow>
     (\<exists>v'. bt_get (db_invitations db') i = Some v' \<and> follows v v'))"

lemma follows_refl: "follows v v"
  by (simp add: follows_def same_identity_def)

lemma follows_trans: "follows u v \<Longrightarrow> follows v w \<Longrightarrow> follows u w"
  unfolding follows_def same_identity_def by metis

lemma evolves_refl: "evolves db db"
  using follows_refl by (auto simp: evolves_def)

lemma evolves_same: "db_invitations db' = db_invitations db \<Longrightarrow> evolves db db'"
  using evolves_refl [of db] by (simp add: evolves_def)

lemma evolves_trans: "evolves a b \<Longrightarrow> evolves b c \<Longrightarrow> evolves a c"
  unfolding evolves_def using follows_trans by meson

lemma evolves_update:
  assumes "\<And>v. bt_get (db_invitations db) i = Some v \<Longrightarrow> follows v v'"
    and "\<And>k. bt_get (db_invitations db') k = (if k = i then Some v' else bt_get (db_invitations db) k)"
  shows "evolves db db'"
  using assms follows_refl by (auto simp: evolves_def)

lemma pair_evolves:
  assumes "apply_writes [UpdateRequest rid doc, UpdateInvitation iid ivt] db = Inr db'"
    and "bt_get (db_invitations db) iid = Some v" and "follows v ivt"
  shows "evolves db db'"
  using apply_pair(1) [OF assms(1)] assms(2,3)
  by (intro evolves_update [of db iid ivt]) (auto simp: pair_update_def)

lemmas follows_simps = follows_def same_identity_def

lemma limit_write_evolves: "apply_write (rate_limit_write p b s) db = Inr db' \<Longrightarrow> evolves db db'"
  by (rule evolves_same) (auto simp: rate_limit_write_def write_simps split: if_splits)

lemma submit_evolves:
  assumes "submit_tx s db = Inr (ws, x)" and "apply_writes ws db = Inr db'"
  shows "evolves db db'"
proof (cases "ws = []")
  case False
  show ?thesis
    by (rule submit_cases [OF assms(1) False])
      (use assms(2) in \<open>auto simp: bind_res_Inr_conv write_simps rate_limit_write_def intro!: evolves_same split: if_splits\<close>)
qed (use assms evolves_refl in simp)

lemma target_evolves:
  assumes "redemption_target_tx a db = Inr (ws, x)" and "apply_writes ws db = Inr db'"
  shows "evolves db db'"
proof (cases "ws = []")
  case False
  show ?thesis
    by (rule redemption_target_cases [OF assms(1) False])
      (use assms(2) in \<open>auto simp: bind_res_Inr_conv intro: evolves_trans limit_write_evolves\<close>)
qed (use assms evolves_refl in simp)

lemma grant_evolves:
  assumes "commit_grant_tx v db = Inr (ws, x)" and "apply_writes ws db = Inr db'"
  shows "evolves db db'"
proof (cases "ws = []")
  case False
  show ?thesis
  proof (rule commit_grant_cases [OF assms(1) False])
    fix doc
    assume "ws = [UpdateRequest (si_request_id v) (doc\<lparr>rd_status := RequestGranted,
             rd_delivery_status := Some DeliveryPending, rd_delivery_retryable := None,
             rd_invitation_id := Some (si_id v), rd_invitation_status := Some Issued\<rparr>),
           CreateInvitation (si_id v) v, CreateLookup (si_lookup_id v) (lookup_new v)]"
    then have "bt_get (db_invitations db) (si_id v) = None"
      "db_invitations db' = bt_insert (si_id v) v (db_invitations db)"
      using assms(2) by (auto simp: write_simps)
    then show ?thesis by (intro evolves_update [of db "si_id v"]) (simp_all add: bt_get_insert)
  qed
qed (use assms evolves_refl in simp)

lemma begin_retry_evolves:
  assumes "begin_retry_tx iid rid n db = Inr (ws, x)" and "apply_writes ws db = Inr db'"
  shows "evolves db db'"
proof (cases "ws = []")
  case False
  show ?thesis
  proof (rule begin_retry_cases [OF assms(1) False])
    fix doc v attempt
    assume v: "bt_get (db_invitations db) iid = Some v"
      and "ws = [UpdateRequest rid (doc\<lparr>rd_delivery_status := Some DeliveryPending, rd_delivery_retryable := None\<rparr>),
           UpdateInvitation iid (v\<lparr>si_delivery_attempt := attempt, si_delivery_status := DeliveryPending,
             si_delivery_retryable := None, si_provider_message_id := None\<rparr>)]"
    with assms(2) show ?thesis by (intro pair_evolves [OF _ v]) (auto simp: follows_simps)
  qed
qed (use assms evolves_refl in simp)

lemma record_delivery_evolves:
  assumes "record_delivery_tx iid rid n a db = Inr (ws, x)" and "apply_writes ws db = Inr db'"
  shows "evolves db db'"
proof (rule record_delivery_cases [OF assms(1)])
  fix doc v
  assume v: "bt_get (db_invitations db) iid = Some v"
    and "ws = [UpdateRequest rid (doc\<lparr>rd_delivery_status := Some (attempt_status a),
             rd_delivery_retryable := fst (attempt_metadata a)\<rparr>),
           UpdateInvitation iid (v\<lparr>si_delivery_status := attempt_status a,
             si_delivery_retryable := fst (attempt_metadata a), si_provider_message_id := snd (attempt_metadata a)\<rparr>)]"
  with assms(2) show ?thesis by (intro pair_evolves [OF _ v]) (auto simp: follows_simps)
qed

lemma revoke_evolves:
  assumes "revoke_tx rid db = Inr (ws, x)" and "apply_writes ws db = Inr db'"
  shows "evolves db db'"
proof (cases "ws = []")
  case False
  show ?thesis
  proof (rule revoke_cases [OF assms(1) False])
    fix doc iid v
    assume v: "bt_get (db_invitations db) iid = Some v" and "si_status v = Issued"
      and ws: "ws = [UpdateRequest rid (doc\<lparr>rd_invitation_status := Some Revoked\<rparr>),
           UpdateInvitation iid (v\<lparr>si_status := Revoked\<rparr>)]"
    then show ?thesis
      by (intro pair_evolves [OF assms(2) [unfolded ws] v]) (simp add: follows_simps)
  qed
qed (use assms evolves_refl in simp)

lemma revoke_access_evolves:
  assumes "revoke_access_tx H rid db = Inr (ws, x)" and "apply_writes ws db = Inr db'"
  shows "evolves db db'"
proof (cases "ws = []")
  case False
  show ?thesis
    by (rule revoke_access_cases [OF assms(1) False])
      (use assms(2) in \<open>auto simp: write_simps intro!: evolves_same\<close>)
qed (use assms evolves_refl in simp)

lemma redemption_evolves:
  assumes "commit_redemption_tx H c p now db = Inr (ws, x)" and "apply_writes ws db = Inr db'"
  shows "evolves db db'"
proof (cases "ws = []")
  case False
  show ?thesis
  proof (rule commit_redemption_cases [OF assms(1) False])
    fix doc v
    assume v: "bt_get (db_invitations db) (rc_invitation_id c) = Some v" and i: "si_status v = Issued"
      and ws: "ws = [UpdateInvitation (rc_invitation_id c)
             (v\<lparr>si_status := Redeemed, si_redeemed_at := Some now, si_redeemed_by := Some p\<rparr>),
           UpdateRequest (rc_request_id c)
             (doc\<lparr>rd_invitation_status := Some Redeemed, rd_access_status := Some AccessActive\<rparr>),
           CreateGrant (H p) (grant_new (rc_invitation_id c) now)]"
    show ?thesis
      by (rule evolves_update [of db "rc_invitation_id c"
            "v\<lparr>si_status := Redeemed, si_redeemed_at := Some now, si_redeemed_by := Some p\<rparr>"])
        (use v i ws assms(2) in \<open>auto simp: follows_simps write_simps bt_get_insert\<close>)
  qed
qed (use assms evolves_refl in simp)

lemma command_evolves:
  assumes "command_tx path_of cmd db = Inr (ws, u)" and "apply_writes ws db = Inr db'"
  shows "evolves db db'"
  using assms
  by (cases cmd) (auto simp: erase_Inr intro: submit_evolves grant_evolves begin_retry_evolves
      record_delivery_evolves revoke_evolves revoke_access_evolves target_evolves redemption_evolves)

lemma transaction_evolves: "evolves db (fst (run_transaction (command_tx path_of cmd) db))"
proof (cases "run_transaction (command_tx path_of cmd) db")
  case (Pair db' r)
  then show ?thesis by (auto elim!: run_transaction_cases intro: command_evolves evolves_refl)
qed

interpretation evolving: store_invariant path_of "evolves origin" for path_of origin
  by unfold_locales (rule evolves_trans [OF _ transaction_evolves])

section \<open>Requests keep their address\<close>

text \<open>The document of a request is never removed, and its address never changes.\<close>

definition addressed :: "beta_db \<Rightarrow> beta_db \<Rightarrow> bool" where
  "addressed db db' \<longleftrightarrow> (\<forall>k d. bt_get (db_requests db) k = Some d \<longrightarrow>
     (\<exists>d'. bt_get (db_requests db') k = Some d' \<and> rd_email d' = rd_email d))"

lemma addressed_refl: "addressed db db"
  by (simp add: addressed_def)

lemma addressed_same: "db_requests db' = db_requests db \<Longrightarrow> addressed db db'"
  by (simp add: addressed_def)

lemma addressed_trans: "addressed a b \<Longrightarrow> addressed b c \<Longrightarrow> addressed a c"
  unfolding addressed_def by metis

text \<open>The writes of one transaction, when those to a request keep its address.\<close>

definition address_kept :: "beta_db \<Rightarrow> beta_write \<Rightarrow> bool" where
  "address_kept db w \<longleftrightarrow> (case w of
     UpdateRequest k d \<Rightarrow> (\<exists>d0. bt_get (db_requests db) k = Some d0 \<and> rd_email d = rd_email d0)
   | _ \<Rightarrow> True)"

lemma write_addressed: "address_kept db w \<Longrightarrow> apply_write w db = Inr db' \<Longrightarrow> addressed db db'"
  by (cases w) (auto simp: address_kept_def addressed_def create_in_Inr update_in_Inr bt_get_insert split: if_splits)

lemma address_kept_later:
  assumes "addressed db db'" and "address_kept db w"
  shows "address_kept db' w"
proof (cases w)
  case (UpdateRequest k d)
  then obtain d0 where "bt_get (db_requests db) k = Some d0" "rd_email d = rd_email d0"
    using assms(2) by (auto simp: address_kept_def)
  with assms(1) UpdateRequest show ?thesis by (fastforce simp: address_kept_def addressed_def)
qed (simp_all add: address_kept_def)

lemma writes_addressed: "list_all (address_kept db) ws \<Longrightarrow> apply_writes ws db = Inr db' \<Longrightarrow> addressed db db'"
proof (induction ws arbitrary: db)
  case (Cons w ws)
  obtain db1 where d: "apply_write w db = Inr db1" "apply_writes ws db1 = Inr db'"
    using Cons.prems(2) by (auto simp: bind_res_Inr_conv)
  have a: "addressed db db1" using Cons.prems(1) d(1) by (auto intro: write_addressed)
  have "list_all (address_kept db1) ws"
    using Cons.prems(1) address_kept_later [OF a] by (auto elim: list.pred_mono_strong)
  from addressed_trans [OF a Cons.IH [OF this d(2)]] show ?case .
qed (simp add: addressed_refl)

lemma command_writes_addressed:
  assumes "command_tx H cmd db = Inr (ws, u)"
  shows "list_all (address_kept db) ws"
proof (cases "ws = []")
  case False
  show ?thesis
  proof (cases cmd)
    case (DoSubmit s)
    with assms obtain x where "submit_tx s db = Inr (ws, x)" by (auto simp: erase_Inr)
    then show ?thesis by (rule submit_cases [OF _ False]) (auto simp: address_kept_def rate_limit_write_def)
  next
    case (DoGrant v)
    with assms obtain x where "commit_grant_tx v db = Inr (ws, x)" by (auto simp: erase_Inr)
    then show ?thesis by (rule commit_grant_cases [OF _ False]) (auto simp: address_kept_def)
  next
    case (DoRetry iid rid n)
    with assms obtain x where "begin_retry_tx iid rid n db = Inr (ws, x)" by (auto simp: erase_Inr)
    then show ?thesis by (rule begin_retry_cases [OF _ False]) (auto simp: address_kept_def)
  next
    case (DoRecordDelivery iid rid n a)
    with assms obtain x where "record_delivery_tx iid rid n a db = Inr (ws, x)" by (auto simp: erase_Inr)
    then show ?thesis by (rule record_delivery_cases) (auto simp: address_kept_def)
  next
    case (DoRevoke rid)
    with assms obtain x where "revoke_tx rid db = Inr (ws, x)" by (auto simp: erase_Inr)
    then show ?thesis by (rule revoke_cases [OF _ False]) (auto simp: address_kept_def)
  next
    case (DoRevokeAccess rid)
    with assms obtain x where "revoke_access_tx H rid db = Inr (ws, x)" by (auto simp: erase_Inr)
    then show ?thesis by (rule revoke_access_cases [OF _ False]) (auto simp: address_kept_def)
  next
    case (DoRedemptionTarget a)
    with assms obtain x where "redemption_target_tx a db = Inr (ws, x)" by (auto simp: erase_Inr)
    then show ?thesis by (rule redemption_target_cases [OF _ False]) (auto simp: address_kept_def rate_limit_write_def)
  next
    case (DoRedeem c p now)
    with assms obtain x where "commit_redemption_tx H c p now db = Inr (ws, x)" by (auto simp: erase_Inr)
    then show ?thesis by (rule commit_redemption_cases [OF _ False]) (auto simp: address_kept_def)
  qed
qed simp

lemma transaction_addressed: "addressed db (fst (run_transaction (command_tx path_of cmd) db))"
proof (cases "run_transaction (command_tx path_of cmd) db")
  case (Pair db' r)
  then show ?thesis
    by (auto elim!: run_transaction_cases intro: writes_addressed command_writes_addressed addressed_refl)
qed

interpretation addressing: store_invariant path_of "addressed origin" for path_of origin
  by unfold_locales (rule addressed_trans [OF _ transaction_addressed])

end
