(* ===== verification/BetaClaims.thy ===== *)
theory BetaClaims
  imports BetaProperties
begin

text \<open>
  The properties of Beta Access: who has access, what never changes about an invitation, which reads
  can fail, what the runtime's operations guarantee under interference and faults, and the bounds of
  the attempt windows.
\<close>

section \<open>Keys of the collections\<close>

text \<open>A collection holds one document per key, in the order of the keys.\<close>

definition keyed :: "beta_db \<Rightarrow> bool" where
  "keyed db \<longleftrightarrow> bt_invar (db_requests db) \<and> bt_invar (db_invitations db) \<and> bt_invar (db_lookups db) \<and>
     bt_invar (db_limits db) \<and> bt_invar (db_grants db)"

lemma apply_write_keyed: "keyed db \<Longrightarrow> apply_write w db = Inr db' \<Longrightarrow> keyed db'"
  by (cases w) (auto simp: write_simps keyed_def bt_insert_invar bt_remove_invar)

lemma apply_writes_keyed: "keyed db \<Longrightarrow> apply_writes ws db = Inr db' \<Longrightarrow> keyed db'"
  by (induction ws arbitrary: db) (auto simp: bind_res_Inr_conv intro: apply_write_keyed)

interpretation keys: reachable_invariant path_of keyed for path_of
proof
  fix db cmd assume k: "keyed db"
  show "keyed (fst (run_transaction (command_tx path_of cmd) db))"
  proof (cases "run_transaction (command_tx path_of cmd) db")
    case (Pair db' r)
    then show ?thesis using k by (auto elim!: run_transaction_cases intro: apply_writes_keyed)
  qed
qed (simp add: keyed_def empty_db_def bt_invar_def)

section \<open>Runs\<close>

text \<open>A run of transaction attempts, each with what the database does to it.\<close>

fun beta_run :: "(string \<Rightarrow> string) \<Rightarrow> (fault \<times> beta_command) list \<Rightarrow> beta_db \<Rightarrow> beta_db" where
  "beta_run H [] db = db"
| "beta_run H ((f, cmd) # cs) db = beta_run H cs (fst (run_attempt f (command_tx H cmd) db))"

lemma beta_run_reach:
  "beta_reach H db \<Longrightarrow> list_all (\<lambda>(f, cmd). admissible cmd) cs \<Longrightarrow> beta_reach H (beta_run H cs db)"
  by (induction cs arbitrary: db) (auto simp: beta_attempt)

lemma attempt_evolves: "evolves db (fst (run_attempt f (command_tx H cmd) db))"
  using run_attempt_db [of f "command_tx H cmd" db] transaction_evolves evolves_refl by auto

lemma beta_run_evolves: "evolves db (beta_run H cs db)"
proof (induction cs arbitrary: db)
  case (Cons c cs)
  show ?case by (cases c) (simp, rule evolves_trans [OF attempt_evolves Cons.IH])
qed (simp add: evolves_refl)

section \<open>A sample\<close>

definition sample_email :: "char \<Rightarrow> normalized_email" where
  "sample_email c = NormalizedEmail (c # ''@b.org'')"

definition sample_submission :: "char \<Rightarrow> submission" where
  "sample_submission c = \<lparr>sub_email = sample_email c, sub_email_rate_key = replicate 64 c,
     sub_ip_rate_key = replicate 64 (CHR ''9''), sub_now = 5\<rparr>"

definition sample_invitation :: "char \<Rightarrow> stored_invitation" where
  "sample_invitation c = new_invitation (replicate 64 c) (sample_email c) 6 (replicate 64 c) (replicate 96 c)
     (replicate 24 c) (replicate 32 c) (replicate 64 c)"

definition sample_commands :: "char \<Rightarrow> (fault \<times> beta_command) list" where
  "sample_commands c = [(NoFault, DoSubmit (sample_submission c)), (NoFault, DoGrant (sample_invitation c)),
     (NoFault, DoRedeem (candidate_of (sample_invitation c)) ''p'' 9)]"

definition sample_db :: beta_db where
  "sample_db = beta_run id (sample_commands (CHR ''a'')) empty_db"

lemma sample_admissible: "list_all (\<lambda>(f, cmd). admissible cmd) (sample_commands (CHR ''a''))"
  "list_all (\<lambda>(f, cmd). admissible cmd) (sample_commands (CHR ''b''))"
  by code_simp+

lemma sample_reach: "beta_reach id sample_db"
  unfolding sample_db_def by (rule beta_run_reach [OF beta_start sample_admissible(1)])

lemma sample_granted:
  "map_option si_status (bt_get (db_invitations sample_db) (replicate 32 (CHR ''a''))) = Some Redeemed"
  by code_simp

section \<open>Access\<close>

text \<open>C4: In every reachable database a player is let in exactly when an invitation redeemed under the
  player's path has not had its access revoked, and the check never reports an error.\<close>

theorem beta_access_exact:
  assumes "beta_reach H db"
  shows "player_has_access H p db =
    Inr (\<exists>i v q. bt_get (db_invitations db) i = Some v \<and> active db v q \<and> H q = H p)"
proof (cases "bt_get (db_grants db) (H p)")
  case None
  have "\<not> (\<exists>i v q. bt_get (db_invitations db) i = Some v \<and> active db v q \<and> H q = H p)"
  proof
    assume "\<exists>i v q. bt_get (db_invitations db) i = Some v \<and> active db v q \<and> H q = H p"
    then obtain i v q where "bt_get (db_invitations db) i = Some v" "active db v q" "H q = H p" by blast
    then obtain g where "bt_get (db_grants db) (H q) = Some g"
      using consistent.reach [OF assms] unfolding db_ok_def grants_ok_def by blast
    then show False using None \<open>H q = H p\<close> by simp
  qed
  then show ?thesis using None by (simp add: player_has_access_def)
next
  case (Some g)
  then have "grant_valid_shape g"
    "\<exists>v q. bt_get (db_invitations db) (gd_invitation_id g) = Some v \<and> active db v q \<and> H q = H p"
    using consistent.reach [OF assms] unfolding db_ok_def grants_ok_def by blast+
  then show ?thesis using Some by (auto simp: player_has_access_def)
qed

theorem beta_access_exact_witness:
  "player_has_access id ''p'' sample_db = Inr True \<and>
   (\<exists>i v q. bt_get (db_invitations sample_db) i = Some v \<and> active sample_db v q \<and> id q = id ''p'')"
proof -
  have "player_has_access id ''p'' sample_db = Inr True" by code_simp
  with beta_access_exact [OF sample_reach, of "''p''"] show ?thesis by simp
qed

text \<open>C24: Two invitations that give access to players with the same path are one: a path never has two
  active redemptions.\<close>

theorem beta_single_active:
  assumes "beta_reach H db" and "bt_get (db_invitations db) i = Some v" and "active db v p"
    and "bt_get (db_invitations db) j = Some w" and "active db w q" and "H p = H q"
  shows "i = j"
proof -
  have "grants_ok H db" using consistent.reach [OF assms(1)] by (simp add: db_ok_def)
  then have "\<exists>g. bt_get (db_grants db) (H p) = Some g \<and> gd_invitation_id g = i"
    "\<exists>g. bt_get (db_grants db) (H q) = Some g \<and> gd_invitation_id g = j"
    using assms(2-5) unfolding grants_ok_def by blast+
  then show ?thesis using assms(6) by auto
qed

theorem beta_single_active_witness:
  "\<exists>i v. bt_get (db_invitations sample_db) i = Some v \<and> active sample_db v ''p'' \<and>
     (\<forall>j w. bt_get (db_invitations sample_db) j = Some w \<longrightarrow> active sample_db w ''p'' \<longrightarrow> i = j)"
proof -
  have "player_has_access id ''p'' sample_db = Inr True" by code_simp
  then have "bt_get (db_grants sample_db) ''p'' \<noteq> None"
    by (auto simp: player_has_access_def split: option.splits)
  then obtain i v where "bt_get (db_invitations sample_db) i = Some v" "active sample_db v ''p''"
    using consistent.reach [OF sample_reach] unfolding db_ok_def grants_ok_def by force
  then show ?thesis using beta_single_active [OF sample_reach _ _ _ _ refl] by blast
qed

text \<open>C6: What an invitation was issued with never changes, and once it is revoked or redeemed it stays
  so, redeemed by the same player, through every run of attempts and faults.\<close>

theorem beta_settled:
  assumes "bt_get (db_invitations db) i = Some v" and "si_status v \<noteq> Issued"
  shows "\<exists>v'. bt_get (db_invitations (beta_run H cs db)) i = Some v' \<and> si_status v' = si_status v \<and>
    si_redeemed_by v' = si_redeemed_by v \<and> si_email v' = si_email v \<and> si_lookup_id v' = si_lookup_id v \<and>
    si_authenticator v' = si_authenticator v"
  using beta_run_evolves [of db H cs] assms unfolding evolves_def follows_simps by fastforce

theorem beta_settled_witness:
  "\<exists>v'. bt_get (db_invitations (beta_run id [(NoFault, DoRevoke (replicate 64 (CHR ''a''))),
      (UnreportedCommit ErrTransport, DoRevokeAccess (replicate 64 (CHR ''a'')))] sample_db))
      (replicate 32 (CHR ''a'')) = Some v' \<and> si_status v' = Redeemed"
proof -
  obtain v where "bt_get (db_invitations sample_db) (replicate 32 (CHR ''a'')) = Some v" "si_status v = Redeemed"
    using sample_granted by auto
  with beta_settled [of sample_db "replicate 32 (CHR ''a'')" v id] show ?thesis by fastforce
qed

text \<open>C7: Revoking the access of a redeemed request ends it: when the revocation commits, the player who
  redeemed the invitation is refused.\<close>

theorem beta_revoke_access_ends:
  assumes "beta_reach H db" and "revoke_access_tx H rid db = Inr (ws, AccessRevokeDone)"
    and "apply_writes ws db = Inr db'"
  shows "\<exists>i v p. bt_get (db_invitations db) i = Some v \<and> si_request_id v = rid \<and> active db v p \<and>
    player_has_access H p db = Inr True \<and> player_has_access H p db' = Inr False"
proof (cases "ws = []")
  case True
  with assms(2) show ?thesis
    unfolding revoke_access_tx_def res_conv Let_def
    by (auto simp: rollback_def res_conv split: if_splits option.splits)
next
  case False
  show ?thesis
  proof (rule revoke_access_cases [OF assms(2) False])
    fix doc i v p
    assume c: "bt_get (db_requests db) rid = Some doc" "rd_invitation_id doc = Some i"
      "bt_get (db_invitations db) i = Some v" "si_redeemed_by v = Some p" "si_status v = Redeemed"
      "rd_access_status doc \<noteq> Some AccessRevoked"
      and ws: "bt_get (db_grants db) (H p) = None \<and> AccessRevokeDone = AccessRevokeAlready \<and>
        ws = [UpdateRequest rid (doc\<lparr>rd_access_status := Some AccessRevoked\<rparr>)] \<or>
        (\<exists>g. bt_get (db_grants db) (H p) = Some g \<and> grants_invitation g i \<and>
          AccessRevokeDone = AccessRevokeDone \<and>
          ws = [UpdateRequest rid (doc\<lparr>rd_access_status := Some AccessRevoked\<rparr>), DeleteGrant (H p)])"
    have "base_ok db" using consistent.reach [OF assms(1)] by (simp add: db_ok_def)
    from base_request(2) [OF this c(1,2)] c(3) have r: "si_request_id v = rid" by (auto simp: linked_def)
    obtain g where g: "bt_get (db_grants db) (H p) = Some g" "grants_invitation g i"
      and w: "ws = [UpdateRequest rid (doc\<lparr>rd_access_status := Some AccessRevoked\<rparr>), DeleteGrant (H p)]"
      using ws by auto
    have "db_grants db' = bt_remove (H p) (db_grants db)" using assms(3) w by (auto simp: write_simps)
    then have "player_has_access H p db' = Inr False" by (simp add: player_has_access_def bt_get_remove)
    moreover have "player_has_access H p db = Inr True"
      using g by (simp add: player_has_access_def grants_invitation_def)
    moreover have "active db v p" using c r by (auto simp: active_def)
    ultimately show ?thesis using c(3) r by blast
  qed
qed

theorem beta_revoke_access_ends_witness:
  "\<exists>p. player_has_access id p sample_db = Inr True \<and>
     player_has_access id p (fst (run_transaction (revoke_access_tx id (replicate 64 (CHR ''a''))) sample_db)) = Inr False"
proof -
  have "snd (run_transaction (revoke_access_tx id (replicate 64 (CHR ''a''))) sample_db) = Inr AccessRevokeDone"
    by code_simp
  then obtain db' where r: "run_transaction (revoke_access_tx id (replicate 64 (CHR ''a''))) sample_db = (db', Inr AccessRevokeDone)"
    by (cases "run_transaction (revoke_access_tx id (replicate 64 (CHR ''a''))) sample_db") simp
  then obtain ws where "revoke_access_tx id (replicate 64 (CHR ''a'')) sample_db = Inr (ws, AccessRevokeDone)"
    "apply_writes ws sample_db = Inr db'" by (auto elim: run_transaction_cases)
  from beta_revoke_access_ends [OF sample_reach this] show ?thesis using r by auto
qed

end
