(* ===== verification/BetaGuarantees.thy ===== *)
theory BetaGuarantees
  imports BetaClaims
begin

text \<open>
  What the operations of Beta Access guarantee: reads of a consistent database find no invalid record,
  a redemption lets in the verified owner of the address, an invitation is sent once and only when
  stored, codes can be verified and recovered, and the attempt windows are bounded.
\<close>

section \<open>Reads\<close>

lemma lookup_valid:
  assumes "base_ok db" and "bt_get (db_invitations db) i = Some v"
  shows "lookup_valid_for (lookup_new v) (si_lookup_id v)" and "si_id v = i" and "valid_shape v"
proof -
  from base_invitation(1) [OF assms] obtain doc where "linked (si_request_id v) doc i v" by blast
  then show "si_id v = i" "valid_shape v" by (simp_all add: linked_def)
  then show "lookup_valid_for (lookup_new v) (si_lookup_id v)"
    by (simp add: lookup_valid_for_def lookup_new_def valid_shape_def opaque_hex_def opaque_identifier_def
        RANDOM_VALUE_BYTES_def)
qed

text \<open>Fetching a request together with its invitation.\<close>

lemma granted_pair:
  assumes "base_ok db" and "bt_get (db_requests db) rid = Some doc" and "into_request doc rid = Inr r"
    and "rd_status doc = RequestGranted"
  obtains i v where "rd_invitation_id doc = Some i" "bt_get (db_invitations db) i = Some v" "linked rid doc i v"
    "si_email v = br_email r"
proof -
  have "doc_ok rid doc" using assms(3) by (rule into_request_doc_ok)
  then obtain i where i: "rd_invitation_id doc = Some i"
    using assms(4) by (auto simp: doc_ok_iff valid_invitation_projection_def split: option.splits)
  with base_request(2) [OF assms(1,2) i] obtain v where v: "bt_get (db_invitations db) i = Some v" "linked rid doc i v"
    by blast
  have "as_str (si_email v) = as_str (br_email r)" using v(2) assms(3) by (simp add: linked_def into_request_Inr)
  then have "si_email v = br_email r" by (simp add: normalized_email.expand)
  then show thesis using that i v by blast
qed

lemma request_found:
  assumes "base_ok db" and "bt_get (db_requests db) rid = Some doc"
  obtains r where "into_request doc rid = Inr r"
  using base_request(1) [OF assms] by (auto simp: doc_ok_def)

lemma invitation_target_found:
  assumes "base_ok db" and "opaque_request_id rid"
  shows "invitation_target_read rid db \<noteq> Inl ErrInvalidRecord"
proof (cases "bt_get (db_requests db) rid")
  case (Some doc)
  obtain r where r: "into_request doc rid = Inr r" using request_found [OF assms(1) Some] .
  show ?thesis
  proof (cases "rd_status doc")
    case RequestPending
    have "br_status r = rd_status doc" using r by (simp add: into_request_Inr)
    then show ?thesis using Some r assms(2) RequestPending by (simp add: invitation_target_read_def)
  next
    case RequestGranted
    obtain i v where iv: "rd_invitation_id doc = Some i" "bt_get (db_invitations db) i = Some v" "linked rid doc i v"
      "si_email v = br_email r" using granted_pair [OF assms(1) Some r RequestGranted] .
    moreover have "br_invitation_status r = rd_invitation_status doc" "br_delivery_status r = rd_delivery_status doc"
      "br_delivery_retryable r = rd_delivery_retryable doc" "br_status r = RequestGranted"
      using r RequestGranted by (simp_all add: into_request_Inr)
    ultimately show ?thesis
      using Some r assms(2) by (simp add: invitation_target_read_def linked_def)
  qed
qed (simp add: invitation_target_read_def assms(2))

lemma grant_target_found:
  assumes "base_ok db" and "opaque_request_id rid"
  shows "grant_target_read rid db \<noteq> Inl ErrInvalidRecord"
proof (cases "bt_get (db_requests db) rid")
  case (Some doc)
  obtain r where "into_request doc rid = Inr r" using request_found [OF assms(1) Some] .
  then show ?thesis using Some assms(2) by (simp add: grant_target_read_def split: request_status.splits)
qed (simp add: grant_target_read_def assms(2))

lemma redemption_target_found:
  assumes "base_ok db"
  shows "lookup_redemption_target l db \<noteq> Inl ErrInvalidRecord"
proof (cases "bt_get (db_lookups db) l")
  case (Some d)
  obtain v where v: "bt_get (db_invitations db) (lk_invitation_id d) = Some v" "si_lookup_id v = l" "d = lookup_new v"
    using base_lookup [OF assms Some] by blast
  obtain doc where doc: "bt_get (db_requests db) (si_request_id v) = Some doc"
    "rd_invitation_id doc = Some (lk_invitation_id d)" "linked (si_request_id v) doc (lk_invitation_id d) v"
    using base_invitation(1) [OF assms v(1)] by blast
  obtain r where r: "into_request doc (si_request_id v) = Inr r" using request_found [OF assms doc(1)] .
  have g: "rd_status doc = RequestGranted"
    using linked_projection(1) [OF into_request_doc_ok [OF r] doc(2)] .
  have "as_str (si_email v) = as_str (br_email r)" using doc(3) r by (simp add: linked_def into_request_Inr)
  then have e: "br_email r = si_email v" by (simp add: normalized_email.expand)
  have "br_status r = RequestGranted" using r g by (simp add: into_request_Inr)
  moreover have "lookup_valid_for d l" "si_id v = lk_invitation_id d" "valid_shape v"
    using lookup_valid [OF assms v(1)] v(2,3) by simp_all
  moreover have "lk_created_at d = si_created_at v" using v(3) by (simp add: lookup_new_def)
  moreover have "rd_invitation_status doc = Some (si_status v)" "rd_delivery_status doc = Some (si_delivery_status v)"
    "rd_delivery_retryable doc = si_delivery_retryable v" using doc(3) by (simp_all add: linked_def)
  ultimately show ?thesis
    using Some v(1,2) doc(1,2) r e
    by (simp add: lookup_redemption_target_def split: invitation_status.splits)
qed (simp add: lookup_redemption_target_def)

lemma admin_entry_found:
  assumes "base_ok db" and "bt_get (db_requests db) rid = Some doc" and "into_request doc rid = Inr r"
  shows "\<exists>a. admin_entry db (r, rd_invitation_id doc) = Inr a"
proof (cases "br_invitation_status r = Some Redeemed")
  case True
  then have st: "rd_invitation_status doc = Some Redeemed" using assms(3) by (simp add: into_request_Inr)
  have "rd_status doc = RequestGranted"
    using st into_request_doc_ok [OF assms(3)]
    by (cases "rd_status doc") (auto simp: doc_ok_iff valid_invitation_projection_def)
  then obtain i v where iv: "rd_invitation_id doc = Some i" "bt_get (db_invitations db) i = Some v" "linked rid doc i v"
    "si_email v = br_email r" using granted_pair [OF assms] by metis
  have r: "br_id r = rid" "br_delivery_status r = rd_delivery_status doc"
    "br_delivery_retryable r = rd_delivery_retryable doc"
    using assms(3) by (simp_all add: into_request_Inr)
  have v: "valid_shape v" "si_id v = i" "si_request_id v = rid" "si_status v = Redeemed"
    using iv(3) st by (simp_all add: linked_def)
  then obtain p where "si_redeemed_by v = Some p" by (auto simp: valid_shape_def redemption_shape_def)
  then show ?thesis
    using True iv r v by (simp add: admin_entry_def admin_request_new_def linked_def)
qed (simp add: admin_entry_def admin_request_new_def)

lemma collect_res_total: "(\<forall>x\<in>set xs. \<exists>y. f x = Inr y) \<Longrightarrow> \<exists>ys. collect_res (map f xs) = Inr ys"
  by (induction xs) (auto simp: bind_res_Inr_conv)

lemma list_found:
  assumes "base_ok db" and "keyed db"
  shows "\<exists>rs. list_requests db db = Inr rs"
proof -
  let ?f = "\<lambda>(i, document). bind_res (into_request document i) (\<lambda>request. Inr (request, rd_invitation_id document))"
  have get: "bt_get (db_requests db) k = Some d" if "(k, d) \<in> set (db_requests db)" for k d
    using that assms(2) bt_entries_get [of "db_requests db"] by (simp add: keyed_def)
  have "\<forall>e\<in>set (db_requests db). \<exists>y. ?f e = Inr y"
    using base_request(1) [OF assms(1) get] by (fastforce simp: doc_ok_def bind_res_Inr_conv)
  then obtain es where es: "request_entries db = Inr es"
    using collect_res_total [of "db_requests db" ?f] by (auto simp: request_entries_def)
  then have m: "map ?f (db_requests db) = map Inr es" by (simp add: request_entries_def collect_res_Inr)
  have from_doc: "\<exists>rid doc. bt_get (db_requests db) rid = Some doc \<and> into_request doc rid = Inr (fst e) \<and>
      snd e = rd_invitation_id doc" if "e \<in> set es" for e
  proof -
    have "Inr e \<in> set (map ?f (db_requests db))" unfolding m using that by simp
    then have "Inr e \<in> ?f ` set (db_requests db)" by (simp only: set_map)
    then obtain x where x: "Inr e = ?f x" "x \<in> set (db_requests db)" by (rule imageE)
    obtain k doc where k: "x = (k, doc)" by (cases x)
    have "bind_res (into_request doc k) (\<lambda>request. Inr (request, rd_invitation_id doc)) = Inr e"
      using x(1) by (simp add: k)
    then have "into_request doc k = Inr (fst e)" "snd e = rd_invitation_id doc"
      by (auto simp: bind_res_Inr_conv)
    then show ?thesis using get [of k doc] x(2) k by blast
  qed
  have "\<exists>a. admin_entry db e = Inr a" if "e \<in> set es" for e
  proof -
    from from_doc [OF that] obtain rid doc where d: "bt_get (db_requests db) rid = Some doc"
      "into_request doc rid = Inr (fst e)" "snd e = rd_invitation_id doc" by blast
    show ?thesis using admin_entry_found [OF assms(1) d(1,2)] by (simp add: d(3) [symmetric])
  qed
  moreover have "\<exists>a. admin_request_new (fst e) None = Inr a" if "\<not> has_redeemed es" "e \<in> set es" for e
    using that by (auto simp: has_redeemed_def list_ex_iff admin_request_new_def)
  ultimately show ?thesis
    using es by (auto simp: list_requests_def intro!: collect_res_total)
qed

text \<open>C8: In a reachable database no read of the runtime reports an invalid record: the targets of
  grants, retries and redemptions are found or missing, and the administrator's list is complete.\<close>

theorem beta_reads_consistent:
  assumes "beta_reach H db" and "opaque_request_id rid"
  shows "grant_target_read rid db \<noteq> Inl ErrInvalidRecord \<and> invitation_target_read rid db \<noteq> Inl ErrInvalidRecord \<and>
    lookup_redemption_target l db \<noteq> Inl ErrInvalidRecord \<and> (\<exists>rs. list_requests db db = Inr rs)"
proof -
  have b: "base_ok db" using consistent.reach [OF assms(1)] by (simp add: db_ok_def)
  show ?thesis
    using grant_target_found [OF b assms(2)] invitation_target_found [OF b assms(2)]
      redemption_target_found [OF b] list_found [OF b keys.reach [OF assms(1)]] by blast
qed

theorem beta_reads_consistent_witness:
  "opaque_request_id (replicate 64 (CHR ''a'')) \<and> (\<exists>rs. list_requests sample_db sample_db = Inr rs)"
proof -
  have "opaque_request_id (replicate 64 (CHR ''a''))" by code_simp
  with beta_reads_consistent [OF sample_reach this] show ?thesis by blast
qed

section \<open>Two reads that are not of one moment\<close>

definition race_before :: "(fault \<times> beta_command) list" where
  "race_before = sample_commands (CHR ''a'')"

definition race_after :: "(fault \<times> beta_command) list" where
  "race_after = [(NoFault, DoRecordDelivery (replicate 32 (CHR ''a'')) (replicate 64 (CHR ''a'')) 1 (AttemptSent ''m''))]"

text \<open>C35: The list reads requests and invitations outside a transaction: when the delivery of an
  invitation already redeemed is recorded between the two reads, the whole list fails as an invalid
  record although both databases are consistent.\<close>

theorem beta_list_race:
  "beta_reach id (beta_run id race_before empty_db) \<and>
   beta_reach id (beta_run id race_after (beta_run id race_before empty_db)) \<and>
   list_requests (beta_run id race_before empty_db) (beta_run id race_after (beta_run id race_before empty_db)) =
     Inl ErrInvalidRecord"
proof -
  have r: "beta_reach id (beta_run id race_before empty_db)"
    using sample_reach by (simp add: race_before_def sample_db_def)
  moreover have "beta_reach id (beta_run id race_after (beta_run id race_before empty_db))"
    by (rule beta_run_reach [OF r]) (simp add: race_after_def)
  moreover have "list_requests (beta_run id race_before empty_db)
      (beta_run id race_after (beta_run id race_before empty_db)) = Inl ErrInvalidRecord" by code_simp
  ultimately show ?thesis by blast
qed

definition regrant_run :: "(fault \<times> beta_command) list" where
  "regrant_run = sample_commands (CHR ''a'') @ [(NoFault, DoRevokeAccess (replicate 64 (CHR ''a'')))] @
     sample_commands (CHR ''b'')"

text \<open>C37: Repeating the revocation of a request's access is reported as an invalid record, not as
  already revoked, once the same player has redeemed another invitation; without that it is reported
  as already revoked.\<close>

theorem beta_repeated_revocation:
  "beta_reach id (beta_run id regrant_run empty_db) \<and>
   revoke_access_tx id (replicate 64 (CHR ''a'')) (beta_run id regrant_run empty_db) = Inl ErrInvalidRecord \<and>
   revoke_access_tx id (replicate 64 (CHR ''a'')) (beta_run id (take 4 regrant_run) empty_db) =
     Inr ([], AccessRevokeAlready)"
proof -
  have "list_all (\<lambda>(f, cmd). admissible cmd) regrant_run"
    using sample_admissible by (simp add: regrant_run_def)
  then have "beta_reach id (beta_run id regrant_run empty_db)" by (rule beta_run_reach [OF beta_start])
  moreover have "revoke_access_tx id (replicate 64 (CHR ''a'')) (beta_run id regrant_run empty_db) = Inl ErrInvalidRecord"
    by code_simp
  moreover have "revoke_access_tx id (replicate 64 (CHR ''a'')) (beta_run id (take 4 regrant_run) empty_db) =
     Inr ([], AccessRevokeAlready)" by code_simp
  ultimately show ?thesis by blast
qed

section \<open>Redeeming a code\<close>

lemma call_store_Inr:
  "call_store w call k = (w', Inr x) \<longleftrightarrow> (\<exists>db y. call (w_db w) = (db, Inr y) \<and> k y (w\<lparr>w_db := db\<rparr>) = (w', Inr x))"
  by (auto simp: call_store_def split: prod.splits sum.splits)

lemma commit_redemption_grants:
  assumes "commit_redemption_tx H c p now db = Inr (ws, CommitGranted)" and "apply_writes ws db = Inr db'"
  shows "\<exists>v. bt_get (db_invitations db') (rc_invitation_id c) = Some v \<and> si_status v = Redeemed \<and>
    si_redeemed_by v = Some p \<and> si_redeemed_at v = Some now \<and> candidate_of v = c \<and>
    player_has_access H p db' = Inr True"
proof (cases "ws = []")
  case True
  with assms(1) show ?thesis
    unfolding commit_redemption_tx_def Let_def case_prod_conv option_Inl_conv if_Inl_conv(1) res_conv(1)
    by (auto simp: rollback_def split: invitation_status.splits if_splits dest: status_Issued)
next
  case False
  show ?thesis
  proof (rule commit_redemption_cases [OF assms(1) False])
    fix doc v
    assume g: "opaque_identifier (rc_invitation_id c) 32" and cand: "candidate_of v = c"
      and ws: "ws = [UpdateInvitation (rc_invitation_id c)
             (v\<lparr>si_status := Redeemed, si_redeemed_at := Some now, si_redeemed_by := Some p\<rparr>),
           UpdateRequest (rc_request_id c)
             (doc\<lparr>rd_invitation_status := Some Redeemed, rd_access_status := Some AccessActive\<rparr>),
           CreateGrant (H p) (grant_new (rc_invitation_id c) now)]"
    have "bt_get (db_grants db') (H p) = Some (grant_new (rc_invitation_id c) now)"
      "bt_get (db_invitations db') (rc_invitation_id c) =
         Some (v\<lparr>si_status := Redeemed, si_redeemed_at := Some now, si_redeemed_by := Some p\<rparr>)"
      using assms(2) ws by (auto simp: write_simps bt_get_insert)
    moreover have "candidate_of (v\<lparr>si_status := Redeemed, si_redeemed_at := Some now, si_redeemed_by := Some p\<rparr>) = c"
      using cand by (simp add: candidate_of_def)
    ultimately show ?thesis using g
      by (simp add: player_has_access_def grant_valid_shape_def grant_new_def)
  qed
qed

lemma redeem_unfolded:
  assumes "runtime_redeem H mode env who input ip now w = (w', Inr ResultGranted)"
  obtains en iss player email c stored db db' where "enabled mode = Some en" "en_invitation en = Some iss"
    "who = Verified player email" "parse_code input = Some c" "si_email stored = email"
    "verify (is_crypto iss) stored email c" "w_db w' = db'"
    "retry_transaction (se_second env) (commit_redemption_tx H (candidate_of stored) player now) db = (db', Inr CommitGranted)"
proof -
  from assms obtain en iss where m: "enabled mode = Some en" "en_invitation en = Some iss"
    by (auto simp: runtime_redeem_def split: option.splits)
  let ?a = "\<lambda>l. \<lparr>ra_ip_rate_key = hashed_identifier (en_hasher en) ''redemption-source-ip'' (text_of ip),
     ra_lookup_id = l, ra_now = now,
     ra_player_rate_key = hashed_identifier (en_hasher en) ''redemption-player'' (text_of (identity_player who))\<rparr>"
  from assms m obtain l tgt db where t: "retry_transaction (se_first env) (redemption_target_tx (?a l)) (w_db w) = (db, Inr tgt)"
    and k: "(if tgt = RedeemRateLimited then (w\<lparr>w_db := db\<rparr>, Inr ResultRateLimited)
       else (case who of
         Unverified _ \<Rightarrow> (w\<lparr>w_db := db\<rparr>, Inr VerificationRequired)
       | Verified player_id email \<Rightarrow>
           (case tgt of
              RedeemInvalid \<Rightarrow> (w\<lparr>w_db := db\<rparr>, Inr ResultInvalid)
            | RedeemRevoked \<Rightarrow> (w\<lparr>w_db := db\<rparr>, Inr ResultRevoked)
            | RedeemAlreadyHandled \<Rightarrow> (w\<lparr>w_db := db\<rparr>, Inr ResultAlreadyHandled)
            | RedeemRateLimited \<Rightarrow> (w\<lparr>w_db := db\<rparr>, Inr ResultRateLimited)
            | RedeemCandidate stored \<Rightarrow>
                (case parse_code input of
                   None \<Rightarrow> (w\<lparr>w_db := db\<rparr>, Inr ResultInvalid)
                 | Some c \<Rightarrow>
                     if \<not> verify (is_crypto iss) stored (si_email stored) c then (w\<lparr>w_db := db\<rparr>, Inr ResultInvalid)
                     else if si_email stored \<noteq> email then (w\<lparr>w_db := db\<rparr>, Inr WrongAccount)
                     else call_store (w\<lparr>w_db := db\<rparr>) (retry_transaction (se_second env)
                            (commit_redemption_tx H (candidate_of stored) player_id now))
                          (\<lambda>commit w. (w, Inr (case commit of
                             CommitGranted \<Rightarrow> ResultGranted
                           | CommitRevoked \<Rightarrow> ResultRevoked
                           | CommitAlreadyHandled \<Rightarrow> ResultAlreadyHandled))))))) = (w', Inr ResultGranted)"
    unfolding runtime_redeem_def Let_def m option.case store_commit_redemption_def store_redemption_target_def
    by (auto simp: call_store_Inr split: sum.splits)
  from k obtain player email where who: "who = Verified player email"
    by (cases who) (auto split: if_splits)
  with k obtain stored where tgt: "tgt = RedeemCandidate stored" by (cases tgt) auto
  with k who obtain c where c: "parse_code input = Some c" by (cases "parse_code input") auto
  with k who tgt have v: "verify (is_crypto iss) stored (si_email stored) c" "si_email stored = email"
    by (auto split: if_splits)
  with k who tgt c obtain db' y where
    "retry_transaction (se_second env) (commit_redemption_tx H (candidate_of stored) player now) db = (db', Inr y)"
    "(case y of CommitGranted \<Rightarrow> ResultGranted | CommitRevoked \<Rightarrow> ResultRevoked
      | CommitAlreadyHandled \<Rightarrow> ResultAlreadyHandled) = ResultGranted" "w_db w' = db'"
    by (auto simp: call_store_Inr)
  moreover from this(2) have "y = CommitGranted" by (cases y) simp_all
  ultimately show thesis using that m who c v by blast
qed

text \<open>C5: Access is granted only to a verified player with a well-formed code that the issuer verifies
  for the player's own address; the invitation is then redeemed by that player at that time and the
  player has access, whatever other tasks and the database did meanwhile.\<close>

theorem beta_redeem_granted:
  assumes "runtime_redeem H mode env who input ip now w = (w', Inr ResultGranted)"
  shows "\<exists>en iss player email c stored v. enabled mode = Some en \<and> en_invitation en = Some iss \<and>
    who = Verified player email \<and> parse_code input = Some c \<and> verify (is_crypto iss) stored email c \<and>
    bt_get (db_invitations (w_db w')) (si_id stored) = Some v \<and> candidate_of v = candidate_of stored \<and>
    si_email v = email \<and> si_status v = Redeemed \<and> si_redeemed_by v = Some player \<and> si_redeemed_at v = Some now \<and>
    player_has_access H player (w_db w') = Inr True"
proof -
  obtain en iss player email c stored db db' where r: "enabled mode = Some en" "en_invitation en = Some iss"
    "who = Verified player email" "parse_code input = Some c" "si_email stored = email"
    "verify (is_crypto iss) stored email c" "w_db w' = db'"
    "retry_transaction (se_second env) (commit_redemption_tx H (candidate_of stored) player now) db = (db', Inr CommitGranted)"
    using redeem_unfolded [OF assms] .
  obtain d ws where "commit_redemption_tx H (candidate_of stored) player now d = Inr (ws, CommitGranted)"
    "apply_writes ws d = Inr db'"
    using retry_transaction_result [OF r(8), where P = "\<lambda>_. True"] by blast
  from commit_redemption_grants [OF this] obtain v where v:
    "bt_get (db_invitations db') (si_id stored) = Some v" "si_status v = Redeemed" "si_redeemed_by v = Some player"
    "si_redeemed_at v = Some now" "candidate_of v = candidate_of stored" "player_has_access H player db' = Inr True"
    by (auto simp: candidate_of_def)
  moreover from v(5) r(5) have "si_email v = email" by (simp add: candidate_of_def)
  ultimately show ?thesis using r by blast
qed

section \<open>A sample deployment\<close>

definition sample_crypto :: crypto where
  "sample_crypto = \<lparr>cr_sign = (\<lambda>m. take 32 (map (\<lambda>b. b mod 256) (rev m) @ replicate 32 7)),
     cr_verify = (\<lambda>m t. t = take 32 (map (\<lambda>b. b mod 256) (rev m) @ replicate 32 7)),
     cr_seal = (\<lambda>n a p. Some (p @ replicate 16 1)), cr_open = (\<lambda>n a c. Some (take (length c - 16) c))\<rparr>"

lemma sample_crypto_ok: "crypto_ok sample_crypto"
  by (auto simp: crypto_ok_def sample_crypto_def octets_def MAX_TAG_LEN_def dest!: in_set_takeD)

definition sample_draws :: draws where
  "sample_draws = \<lparr>dr_id = Some (replicate 16 170), dr_code = Some (replicate 16 187), dr_nonce = Some (replicate 12 3)\<rparr>"

definition sample_mode :: beta_mode where
  "sample_mode = Enabled \<lparr>en_hasher = (\<lambda>m. replicate 32 (length m mod 256)),
     en_invitation = Some \<lparr>is_crypto = sample_crypto, is_answer = (\<lambda>_. Inr ''m1'')\<rparr>\<rparr>"

definition calm :: attempt where
  "calm = (id, NoFault)"

definition calm_env :: store_env where
  "calm_env = \<lparr>se_read = calm, se_first = [calm], se_second = [calm]\<rparr>"

definition sample_world :: beta_world where
  "sample_world = \<lparr>w_db = fst (runtime_submit sample_mode [calm] (sample_email (CHR ''a'')) ''10.0.0.1'' 5 empty_db),
     w_sent = []\<rparr>"

definition sample_request :: string where
  "sample_request = hashed_identifier (\<lambda>m. replicate 32 (length m mod 256)) ''email'' (text_of ''a@b.org'')"

definition sample_granted_world :: beta_world where
  "sample_granted_world = fst (runtime_grant sample_mode calm_env sample_draws sample_request 6 sample_world)"

theorem beta_redeem_granted_witness:
  "\<exists>w'. runtime_redeem id sample_mode calm_env (Verified ''p'' (sample_email (CHR ''a''))) (text_of (hex (replicate 16 187)))
     ''10.0.0.1'' 9 sample_granted_world = (w', Inr ResultGranted) \<and> player_has_access id ''p'' (w_db w') = Inr True"
proof -
  let ?r = "runtime_redeem id sample_mode calm_env (Verified ''p'' (sample_email (CHR ''a''))) (text_of (hex (replicate 16 187)))
     ''10.0.0.1'' 9 sample_granted_world"
  have "snd ?r = Inr ResultGranted" by code_simp
  then have "?r = (fst ?r, Inr ResultGranted)" by (metis prod.collapse)
  from beta_redeem_granted [OF this] this show ?thesis by auto
qed

section \<open>Granting\<close>

lemma commit_grant_stores:
  assumes "commit_grant_tx i db = Inr (ws, GrantIssued)" and "apply_writes ws db = Inr db'"
  obtains request where "bt_get (db_invitations db') (si_id i) = Some i"
    "bt_get (db_requests db') (si_request_id i) = Some request" "rd_email request = as_str (si_email i)"
proof (cases "ws = []")
  case True
  with assms(1) show ?thesis
    unfolding commit_grant_tx_def Let_def if_Inl_conv(1) option_Inl_conv res_conv(1)
    by (auto simp: rollback_def split: if_splits)
next
  case False
  show ?thesis
    by (rule commit_grant_cases [OF assms(1) False]) (use assms(2) in \<open>auto simp: write_simps bt_get_insert intro: that\<close>)
qed

text \<open>A grant either hands nothing over, or has committed an invitation before it handed it over.\<close>

lemma grant_unfolded:
  assumes "runtime_grant mode env d rid now w = (w', r)" and "w_sent w' \<noteq> w_sent w"
  obtains en iss email p db0 db1 x where "enabled mode = Some en" "en_invitation en = Some iss"
    "prepare (is_crypto iss) d rid email now = Inr p"
    "retry_transaction (se_first env) (commit_grant_tx (pi_stored p)) db0 = (db1, Inr GrantIssued)"
    "w_sent w' = w_sent w @ [delivery_request_of p (si_delivery_attempt (pi_stored p))]"
    "retry_transaction (se_second env) (record_delivery_tx (si_id (pi_stored p)) rid (si_delivery_attempt (pi_stored p)) x) db1 =
       (w_db w', snd (retry_transaction (se_second env)
         (record_delivery_tx (si_id (pi_stored p)) rid (si_delivery_attempt (pi_stored p)) x) db1))"
proof -
  obtain en iss where m: "opaque_request_id rid" "enabled mode = Some en" "en_invitation en = Some iss"
    using assms by (auto simp: runtime_grant_def split: if_splits option.splits)
  obtain db0 R where R: "read_call (se_read env) (grant_target_read rid) (w_db w) = (db0, R)" by fastforce
  obtain email where e: "R = Inr (TargetPending email)"
    using assms R m by (cases R) (auto simp: runtime_grant_def call_store_def split: grant_target.splits)
  obtain p where p: "prepare (is_crypto iss) d rid email now = Inr p"
    using assms R m e by (cases "prepare (is_crypto iss) d rid email now") (auto simp: runtime_grant_def call_store_def)
  obtain db1 C where C: "retry_transaction (se_first env) (commit_grant_tx (pi_stored p)) db0 = (db1, C)" by fastforce
  have c: "C = Inr GrantIssued"
    using assms R m e p C by (cases C) (auto simp: runtime_grant_def call_store_def split: grant_commit.splits)
  let ?n = "si_delivery_attempt (pi_stored p)"
  let ?x = "deliver (is_answer iss (delivery_request_of p ?n))"
  obtain db2 D where D: "retry_transaction (se_second env) (record_delivery_tx (si_id (pi_stored p)) rid ?n ?x) db1 = (db2, D)"
    by fastforce
  have "w_sent w' = w_sent w @ [delivery_request_of p ?n]" "w_db w' = db2"
    using assms R m e p C c D
    by (auto simp: runtime_grant_def call_store_def deliver_and_record_def Let_def split: sum.splits)
  then show thesis using that [OF m(2,3) p C [unfolded c], of ?x] D by simp
qed

text \<open>C9: Granting hands at most one invitation to the provider, and only one that is stored. The
  invitation handed over is the one that the deployment's own issuer prepared for that request: it
  carries its code, its first attempt and its identifier, under which the same invitation is stored
  with that request, and it is addressed to the address in the stored document of that request. This
  holds whatever the database and other tasks do, as long as these let invitations evolve and
  requests keep their address, as every transaction of Beta Access does.\<close>

theorem beta_grant_sends_stored:
  assumes "runtime_grant mode env d rid now w = (w', r)" and "\<And>origin. env_keeps (evolves origin) env"
    and "\<And>origin. env_keeps (addressed origin) env"
  shows "w_sent w' = w_sent w \<or>
    (\<exists>en iss p q v request. enabled mode = Some en \<and> en_invitation en = Some iss \<and>
       w_sent w' = w_sent w @ [q] \<and> prepare (is_crypto iss) d rid (dq_email q) now = Inr p \<and>
       dq_code q = pi_code p \<and> dq_delivery_attempt q = si_delivery_attempt (pi_stored p) \<and>
       bt_get (db_invitations (w_db w')) (dq_invitation_id q) = Some v \<and> same_identity (pi_stored p) v \<and>
       si_request_id v = rid \<and> si_email v = dq_email q \<and>
       bt_get (db_requests (w_db w')) rid = Some request \<and> rd_email request = as_str (dq_email q))"
proof (cases "w_sent w' = w_sent w")
  case False
  obtain en iss email p db0 db1 x where g: "enabled mode = Some en" "en_invitation en = Some iss"
    "prepare (is_crypto iss) d rid email now = Inr p"
    "retry_transaction (se_first env) (commit_grant_tx (pi_stored p)) db0 = (db1, Inr GrantIssued)"
    "w_sent w' = w_sent w @ [delivery_request_of p (si_delivery_attempt (pi_stored p))]"
    "retry_transaction (se_second env) (record_delivery_tx (si_id (pi_stored p)) rid (si_delivery_attempt (pi_stored p)) x) db1 =
       (w_db w', snd (retry_transaction (se_second env)
         (record_delivery_tx (si_id (pi_stored p)) rid (si_delivery_attempt (pi_stored p)) x) db1))"
    using grant_unfolded [OF assms(1) False] .
  have i: "si_request_id (pi_stored p) = rid" "si_email (pi_stored p) = email" using prepare_fresh [OF g(3)] by blast+
  obtain dd ws where "commit_grant_tx (pi_stored p) dd = Inr (ws, GrantIssued)" "apply_writes ws dd = Inr db1"
    using retry_transaction_result [OF g(4), where P = "\<lambda>_. True"] by blast
  from commit_grant_stores [OF this] obtain request0 where
    st: "bt_get (db_invitations db1) (si_id (pi_stored p)) = Some (pi_stored p)"
    "bt_get (db_requests db1) rid = Some request0" "rd_email request0 = as_str email"
    unfolding i .
  have "evolves db1 (w_db w')" "addressed db1 (w_db w')"
    by (rule evolving.loop_pair [of "DoRecordDelivery (si_id (pi_stored p)) rid (si_delivery_attempt (pi_stored p)) x",
          OF _ _ env_keeps_parts(3) [OF assms(2)] evolves_refl g(6)],
        simp_all,
        rule addressing.loop_pair [of "DoRecordDelivery (si_id (pi_stored p)) rid (si_delivery_attempt (pi_stored p)) x",
          OF _ _ env_keeps_parts(3) [OF assms(3)] addressed_refl g(6)], simp_all)
  moreover from this obtain v request where "bt_get (db_invitations (w_db w')) (si_id (pi_stored p)) = Some v"
    "same_identity (pi_stored p) v" "bt_get (db_requests (w_db w')) rid = Some request" "rd_email request = as_str email"
    using st unfolding evolves_def follows_def addressed_def by metis
  ultimately show ?thesis using g(1,2,3,5) i by (auto simp: delivery_request_of_def same_identity_def)
qed simp

theorem beta_grant_sends_stored_witness:
  "\<exists>q v request. w_sent sample_granted_world = [q] \<and> dq_email q = sample_email (CHR ''a'') \<and>
     bt_get (db_invitations (w_db sample_granted_world)) (dq_invitation_id q) = Some v \<and>
     bt_get (db_requests (w_db sample_granted_world)) sample_request = Some request \<and>
     rd_email request = as_str (sample_email (CHR ''a''))"
proof -
  have "map dq_email (w_sent sample_granted_world) = [sample_email (CHR ''a'')]" by code_simp
  then obtain q where q: "w_sent sample_granted_world = [q]" "dq_email q = sample_email (CHR ''a'')"
    by (cases "w_sent sample_granted_world") auto
  have k: "env_keeps P calm_env" for P
    by (simp add: env_keeps_def attempts_keep_def calm_env_def calm_def)
  obtain r where "runtime_grant sample_mode calm_env sample_draws sample_request 6 sample_world = (sample_granted_world, r)"
    by (metis sample_granted_world_def prod.collapse)
  from beta_grant_sends_stored [OF this k k] q show ?thesis by (auto simp: sample_world_def)
qed

section \<open>Codes\<close>

text \<open>C25: An invitation as it is issued verifies with its code for its address, and its code is recovered
  from what is stored, for any keyed primitives that behave as documented.\<close>

theorem invitation_roundtrip:
  assumes "crypto_ok cr" and "draws_ok d" and "opaque_request_id rid" and "prepare cr d rid email now = Inr p"
  shows "valid_shape (pi_stored p) \<and> verify cr (pi_stored p) email (pi_code p) \<and> recover cr (pi_stored p) = Inr p"
  using prepare_shape(1) [OF assms] prepare_verify [OF assms] by blast

theorem invitation_roundtrip_witness:
  "\<exists>p. prepare sample_crypto sample_draws (replicate 64 (CHR ''a'')) (sample_email (CHR ''a'')) 6 = Inr p \<and>
     recover sample_crypto (pi_stored p) = Inr p"
proof -
  have d: "draws_ok sample_draws"
    by (simp add: draws_ok_def sample_draws_def RANDOM_VALUE_BYTES_def NONCE_BYTES_def octets_def)
  have r: "opaque_request_id (replicate 64 (CHR ''a''))" by code_simp
  have "case prepare sample_crypto sample_draws (replicate 64 (CHR ''a'')) (sample_email (CHR ''a'')) 6 of Inl _ \<Rightarrow> False | Inr _ \<Rightarrow> True"
    by code_simp
  then obtain p where "prepare sample_crypto sample_draws (replicate 64 (CHR ''a'')) (sample_email (CHR ''a'')) 6 = Inr p"
    by (cases "prepare sample_crypto sample_draws (replicate 64 (CHR ''a'')) (sample_email (CHR ''a'')) 6") auto
  with invitation_roundtrip [OF sample_crypto_ok d r this] show ?thesis by blast
qed

text \<open>C27: A code verified against an issued invitation is the code that was issued, for the address it
  was issued to, unless the tags of these two different messages collide.\<close>

theorem invitation_binding:
  assumes "crypto_ok cr" and "prepare cr d rid email now = Inr p" and "verify cr (pi_stored p) e c"
  shows "e = email \<and> (c = pi_code p \<or>
    (\<exists>m m'. authenticated_message (si_id (pi_stored p)) e c = Inr m \<and>
       authenticated_message (si_id (pi_stored p)) e (pi_code p) = Inr m' \<and> m \<noteq> m' \<and> cr_sign cr m = cr_sign cr m'))"
  using verify_issued [OF assms] by blast

theorem invitation_binding_witness:
  "\<exists>p. prepare sample_crypto sample_draws (replicate 64 (CHR ''a'')) (sample_email (CHR ''a'')) 6 = Inr p \<and>
     verify sample_crypto (pi_stored p) (sample_email (CHR ''a'')) (hex (replicate 16 187)) \<and>
     hex (replicate 16 187) = pi_code p"
proof -
  have "case prepare sample_crypto sample_draws (replicate 64 (CHR ''a'')) (sample_email (CHR ''a'')) 6 of Inl _ \<Rightarrow> False
    | Inr p \<Rightarrow> verify sample_crypto (pi_stored p) (sample_email (CHR ''a'')) (hex (replicate 16 187)) \<and>
        pi_code p = hex (replicate 16 187)"
    by code_simp
  then obtain p where p: "prepare sample_crypto sample_draws (replicate 64 (CHR ''a'')) (sample_email (CHR ''a'')) 6 = Inr p"
    "verify sample_crypto (pi_stored p) (sample_email (CHR ''a'')) (hex (replicate 16 187))"
    "pi_code p = hex (replicate 16 187)"
    by (cases "prepare sample_crypto sample_draws (replicate 64 (CHR ''a'')) (sample_email (CHR ''a'')) 6") auto
  have "hex (replicate 16 187) = pi_code p"
    using invitation_binding [OF sample_crypto_ok p(1,2)] p(3) by simp
  with p show ?thesis by blast
qed

text \<open>C31: Parsing an address is idempotent: the normalized address parses to itself, so a stored request
  always reads back as the request that was submitted.\<close>

theorem email_normal_form:
  assumes "parse_email input = Inr e"
  shows "parse_email (text_of (as_str e)) = Inr e"
  using assms by (rule parse_email_normal)

theorem email_normal_form_witness:
  "parse_email (text_of ''  Player+Beta@Example.COM '') = Inr (NormalizedEmail ''player+beta@example.com'') \<and>
   parse_email (text_of ''player+beta@example.com'') = Inr (NormalizedEmail ''player+beta@example.com'')"
proof -
  have p: "parse_email (text_of ''  Player+Beta@Example.COM '') = Inr (NormalizedEmail ''player+beta@example.com'')"
    by code_simp
  with email_normal_form [OF p] show ?thesis by simp
qed

section \<open>Attempt windows\<close>

text \<open>The e-mail window of a key as a submission finds it.\<close>

definition email_window :: "string \<Rightarrow> beta_db \<Rightarrow> beta_error + rate_limit option" where
  "email_window key db = limit_state (bt_get (db_limits db) (''email-'' @ key))"

definition accepted :: "beta_error + store_outcome \<Rightarrow> bool" where
  "accepted r \<longleftrightarrow> r = Inr Recorded \<or> r = Inr Duplicate"

fun submit_run :: "submission list \<Rightarrow> beta_db \<Rightarrow> (beta_error + store_outcome) list" where
  "submit_run [] db = []"
| "submit_run (s # ss) db =
     (let (db', r) = run_transaction (submit_tx s) db in r # submit_run ss db')"

lemma submit_window:
  assumes "run_transaction (submit_tx s) db = (db', r)"
  shows "if accepted r
    then \<exists>c st. email_window (sub_email_rate_key s) db = Inr c \<and>
      rate_limit_consume c EMAIL_ATTEMPT_LIMIT (sub_now s) = (st, True) \<and>
      email_window (sub_email_rate_key s) db' = Inr (Some st)
    else db' = db"
proof -
  let ?p = "''email-'' @ sub_email_rate_key s" and ?i = "''ip-'' @ sub_ip_rate_key s"
  from assms show ?thesis
  proof (cases rule: run_transaction_cases)
    case (failed e)
    then show ?thesis by (simp add: accepted_def)
  next
    case (committed ws x)
    show ?thesis
    proof (cases "ws = []")
      case True
      obtain c1 s1 a1 c2 s2 a2 where
        "(if \<not> a1 \<or> \<not> a2 then rollback OutcomeRateLimited else
          if bt_get (db_requests db) (sub_email_rate_key s) \<noteq> None
          then Inr ([rate_limit_write ?p (bt_get (db_limits db) ?p \<noteq> None) s1,
            rate_limit_write ?i (bt_get (db_limits db) ?i \<noteq> None) s2], Duplicate)
          else Inr ([rate_limit_write ?p (bt_get (db_limits db) ?p \<noteq> None) s1,
            rate_limit_write ?i (bt_get (db_limits db) ?i \<noteq> None) s2] @
            [CreateRequest (sub_email_rate_key s) (request_pending s)], Recorded)) = Inr (ws, x)"
        using committed(1) unfolding submit_tx_def Let_def if_Inl_conv res_conv(1) prod_res_conv by blast
      then have "x = OutcomeRateLimited" using True by (auto simp: rollback_def split: if_splits)
      then show ?thesis using True committed by (simp add: accepted_def)
    next
      case False
      obtain c1 s1 a1 c2 s2 a2 rest where l: "limit_state (bt_get (db_limits db) ?p) = Inr c1"
        "rate_limit_consume c1 EMAIL_ATTEMPT_LIMIT (sub_now s) = (s1, a1)"
        "limit_state (bt_get (db_limits db) ?i) = Inr c2"
        "rate_limit_consume c2 IP_ATTEMPT_LIMIT (sub_now s) = (s2, a2)" "a1 \<and> a2"
        "ws = [rate_limit_write ?p (bt_get (db_limits db) ?p \<noteq> None) s1,
            rate_limit_write ?i (bt_get (db_limits db) ?i \<noteq> None) s2] @ rest"
        "rest = [] \<and> x = Duplicate \<or>
         x = Recorded \<and> rest = [CreateRequest (sub_email_rate_key s) (request_pending s)]"
        using submit_parts [OF committed(1) False] .
      then have a: "a1 \<and> a2" and ws: "ws = [rate_limit_write ?p (bt_get (db_limits db) ?p \<noteq> None) s1,
            rate_limit_write ?i (bt_get (db_limits db) ?i \<noteq> None) s2] @ rest"
        and rest: "rest = [] \<or> rest = [CreateRequest (sub_email_rate_key s) (request_pending s)]"
        and x: "x = Recorded \<or> x = Duplicate"
        by blast+
      have "bt_get (db_limits db') ?p = Some (limit_from_state s1)"
        using committed(2) rest
        by (auto simp: ws write_simps rate_limit_write_def bt_get_insert split: if_splits)
      moreover have "rate_limit_valid_shape s1" using consumed_valid [OF l(1)] l(2) a by simp
      ultimately have "email_window (sub_email_rate_key s) db' = Inr (Some s1)"
        by (simp add: email_window_def limit_state_from_state)
      then show ?thesis using l x a committed(3) by (auto simp: accepted_def email_window_def)
    qed
  qed
qed

text \<open>What a window can still admit before the moment \<open>e\<close>.\<close>

definition remaining :: "int \<Rightarrow> rate_limit option \<Rightarrow> nat" where
  "remaining e w = (case w of
     None \<Rightarrow> 2 * EMAIL_ATTEMPT_LIMIT
   | Some s \<Rightarrow> (EMAIL_ATTEMPT_LIMIT - rl_attempts s) + (if rl_purge_at s \<ge> e then 0 else EMAIL_ATTEMPT_LIMIT))"

lemma remaining_le: "remaining e w \<le> 2 * EMAIL_ATTEMPT_LIMIT"
  by (auto simp: remaining_def EMAIL_ATTEMPT_LIMIT_def split: option.split)

lemma consume_remaining:
  assumes "rate_limit_consume c EMAIL_ATTEMPT_LIMIT now = (s, True)" and "now < e" and "e \<le> now + hours RATE_LIMIT_LIFETIME_HOURS"
  shows "Suc (remaining e (Some s)) \<le> remaining e c"
  using assms
  by (auto simp: rate_limit_consume_def remaining_def Let_def EMAIL_ATTEMPT_LIMIT_def split: option.splits if_splits)

lemma submit_run_bound:
  assumes "\<forall>s\<in>set ss. sub_email_rate_key s = k \<and> t \<le> sub_now s \<and> sub_now s < t + hours RATE_LIMIT_LIFETIME_HOURS"
  shows "length (filter accepted (submit_run ss db)) \<le>
    (case email_window k db of Inl _ \<Rightarrow> 0 | Inr c \<Rightarrow> remaining (t + hours RATE_LIMIT_LIFETIME_HOURS) c)"
  using assms
proof (induction ss arbitrary: db)
  case (Cons s ss)
  obtain db' r where r: "run_transaction (submit_tx s) db = (db', r)" by fastforce
  note ih = Cons.IH [of db']
  show ?case
  proof (cases "accepted r")
    case True
    from submit_window [OF r] True Cons.prems obtain c st where w: "email_window k db = Inr c"
      "rate_limit_consume c EMAIL_ATTEMPT_LIMIT (sub_now s) = (st, True)" "email_window k db' = Inr (Some st)"
      by auto
    then show ?thesis using ih Cons.prems True r consume_remaining [OF w(2), of "t + hours RATE_LIMIT_LIFETIME_HOURS"]
      by (auto simp: hours_def)
  next
    case False
    then show ?thesis using ih submit_window [OF r] Cons.prems r by simp
  qed
qed simp

text \<open>C29: However submissions for one address are spread over a day, at most twice the limit of a window
  are accepted: two windows can meet within a day, three cannot.\<close>

theorem beta_submission_bound:
  assumes "\<forall>s\<in>set ss. sub_email_rate_key s = k \<and> t \<le> sub_now s \<and> sub_now s < t + hours RATE_LIMIT_LIFETIME_HOURS"
  shows "length (filter accepted (submit_run ss db)) \<le> 2 * EMAIL_ATTEMPT_LIMIT"
proof (cases "email_window k db")
  case (Inl e)
  then show ?thesis using submit_run_bound [OF assms, of db] by simp
next
  case (Inr c)
  then show ?thesis using submit_run_bound [OF assms, of db] remaining_le le_trans by fastforce
qed

theorem beta_submission_bound_witness:
  "length (filter accepted (submit_run (replicate 12 (sample_submission (CHR ''a''))) empty_db)) \<le> 10 \<and>
   length (filter accepted (submit_run (replicate 12 (sample_submission (CHR ''a''))) empty_db)) = 5"
proof -
  have "length (filter accepted (submit_run (replicate 12 (sample_submission (CHR ''a''))) empty_db)) = 5" by code_simp
  moreover have "\<forall>s\<in>set (replicate 12 (sample_submission (CHR ''a''))). sub_email_rate_key s = replicate 64 (CHR ''a'') \<and>
      5 \<le> sub_now s \<and> sub_now s < 5 + hours RATE_LIMIT_LIFETIME_HOURS"
    by (simp add: sample_submission_def hours_def RATE_LIMIT_LIFETIME_HOURS_def)
  from beta_submission_bound [OF this, of empty_db]
  have "length (filter accepted (submit_run (replicate 12 (sample_submission (CHR ''a''))) empty_db)) \<le> 10"
    by (simp add: EMAIL_ATTEMPT_LIMIT_def)
  ultimately show ?thesis by blast
qed

end
