(* ===== verification/Grounding.thy ===== *)
theory Grounding
  imports BetaText OrdMap
begin

text \<open>
  The gate on the Language Layer's prose: the chess literals an answer may name
  (\<open>chess_literal_grounding.rs\<close>), the internal vocabulary it may not use (the gate functions of
  \<open>critical_moment_comment.rs\<close>), and the gate of a HostTurn answer (\<open>review_session_host/grounding.rs\<close>).
  Text is a list of Unicode scalar values. Whether a token reads as a move in SAN is decided by the
  \<open>shakmaty\<close> parser, here the parameter \<open>san\<close>. The byte indices of \<open>destination_square\<close> and
  \<open>allow_uci_squares\<close> are scalar indices here, which is the same on ASCII text, and moves are ASCII.
\<close>

section \<open>Text\<close>

type_synonym utext = "nat list"

definition digit_code :: "nat \<Rightarrow> bool" where "digit_code c \<longleftrightarrow> 48 \<le> c \<and> c \<le> 57"
definition upper_code :: "nat \<Rightarrow> bool" where "upper_code c \<longleftrightarrow> 65 \<le> c \<and> c \<le> 90"
definition lower_code :: "nat \<Rightarrow> bool" where "lower_code c \<longleftrightarrow> 97 \<le> c \<and> c \<le> 122"
definition alpha_code :: "nat \<Rightarrow> bool" where "alpha_code c \<longleftrightarrow> upper_code c \<or> lower_code c"
definition alnum_code :: "nat \<Rightarrow> bool" where "alnum_code c \<longleftrightarrow> digit_code c \<or> alpha_code c"

definition lower_text :: "utext \<Rightarrow> utext" where
  "lower_text s = map (\<lambda>c. if upper_code c then c + 32 else c) s"

fun split_by :: "(nat \<Rightarrow> bool) \<Rightarrow> utext \<Rightarrow> utext list" where
  "split_by p [] = [[]]"
| "split_by p (c # cs) =
     (if p c then [] # split_by p cs
      else (case split_by p cs of [] \<Rightarrow> [[c]] | t # ts \<Rightarrow> (c # t) # ts))"

definition split_whitespace :: "utext \<Rightarrow> utext list" where
  "split_whitespace s = filter (\<lambda>t. t \<noteq> []) (split_by white_space s)"

definition trim_matches :: "(nat \<Rightarrow> bool) \<Rightarrow> utext \<Rightarrow> utext" where
  "trim_matches p s = rev (dropWhile p (rev (dropWhile p s)))"

definition trim_end_matches :: "(nat \<Rightarrow> bool) \<Rightarrow> utext \<Rightarrow> utext" where
  "trim_end_matches p s = rev (dropWhile p (rev s))"

fun contains_text :: "utext \<Rightarrow> utext \<Rightarrow> bool" where
  "contains_text needle [] = (needle = [])"
| "contains_text needle (c # cs) = (take (length needle) (c # cs) = needle \<or> contains_text needle cs)"

definition any_window2 :: "('a \<Rightarrow> 'a \<Rightarrow> bool) \<Rightarrow> 'a list \<Rightarrow> bool" where
  "any_window2 p xs = list_ex (\<lambda>(a, b). p a b) (zip xs (tl xs))"

section \<open>Chess literals\<close>

text \<open>The allowlist is a sorted set of texts.\<close>

type_synonym grounding = "utext list"

definition grounding_empty :: grounding where "grounding_empty = []"

definition kept_code :: "nat \<Rightarrow> bool" where
  "kept_code c \<longleftrightarrow> alnum_code c \<or> c = 43 \<or> c = 35 \<or> c = 61 \<or> c = 45 \<or> c = 79"

definition normalized_chess_token :: "utext \<Rightarrow> utext" where
  "normalized_chess_token token = trim_matches (\<lambda>c. \<not> kept_code c) token"

definition chess_tokens :: "utext \<Rightarrow> utext list" where
  "chess_tokens s = filter (\<lambda>t. t \<noteq> []) (map normalized_chess_token (split_whitespace s))"

definition allow :: "utext \<Rightarrow> grounding \<Rightarrow> grounding" where
  "allow v g = fold insort_insert (v # chess_tokens v) g"

definition allow_all :: "utext list \<Rightarrow> grounding \<Rightarrow> grounding" where
  "allow_all vs g = fold allow vs g"

definition is_square :: "utext \<Rightarrow> bool" where
  "is_square s = (case s of [f, r] \<Rightarrow> 97 \<le> f \<and> f \<le> 104 \<and> 49 \<le> r \<and> r \<le> 56 | _ \<Rightarrow> False)"

definition destination_square :: "utext \<Rightarrow> utext option" where
  "destination_square san_text =
     (let trimmed = takeWhile (\<lambda>c. c \<noteq> 61) (trim_end_matches (\<lambda>c. c = 43 \<or> c = 35) san_text)
      in if length trimmed < 2 then None
         else (let square = drop (length trimmed - 2) trimmed
               in if is_square square then Some square else None))"

definition allow_square :: "utext \<Rightarrow> grounding \<Rightarrow> grounding" where
  "allow_square s g = (if is_square s then insort_insert s g else g)"

definition allow_move_san :: "utext \<Rightarrow> grounding \<Rightarrow> grounding" where
  "allow_move_san m g = (let g1 = allow m g in
     case destination_square m of Some square \<Rightarrow> allow_square square g1 | None \<Rightarrow> g1)"

definition allow_moves_san :: "utext list \<Rightarrow> grounding \<Rightarrow> grounding" where
  "allow_moves_san ms g = fold allow_move_san ms g"

definition allow_uci_squares :: "utext \<Rightarrow> grounding \<Rightarrow> grounding" where
  "allow_uci_squares uci g =
     (if 4 \<le> length uci then allow_square (take 2 (drop 2 uci)) (allow_square (take 2 uci) g) else g)"

definition allow_uci_squares_all :: "utext list \<Rightarrow> grounding \<Rightarrow> grounding" where
  "allow_uci_squares_all us g = fold allow_uci_squares us g"

definition allowed :: "grounding \<Rightarrow> utext list" where
  "allowed g = g"

definition grounding_validate :: "(utext \<Rightarrow> bool) \<Rightarrow> grounding \<Rightarrow> utext \<Rightarrow> bool" where
  "grounding_validate san g s =
     (\<not> list_ex (\<lambda>t. t \<notin> set g) (filter san (chess_tokens s)))"

section \<open>Internal vocabulary\<close>

definition is_raw_uci :: "utext \<Rightarrow> bool" where
  "is_raw_uci t = (case t of
     a # b # c # d # rest \<Rightarrow>
       is_square [a, b] \<and> is_square [c, d]
       \<and> (rest = [] \<or> (\<exists>p \<in> set rest. length rest = 1 \<and> p \<in> {113, 114, 98, 110}))
   | _ \<Rightarrow> False)"

definition contains_raw_uci :: "utext \<Rightarrow> bool" where
  "contains_raw_uci s = list_ex is_raw_uci (map (trim_matches (\<lambda>c. \<not> alnum_code c)) (split_whitespace s))"

definition analyzed_pair :: "utext \<Rightarrow> utext \<Rightarrow> bool" where
  "analyzed_pair first second =
     (let score = trim_matches (\<lambda>c. \<not> alnum_code c \<and> c \<notin> {43, 45, 35, 46}) second
      in lower_text (trim_matches (\<lambda>c. \<not> alpha_code c) first) = text_of ''analyzed''
         \<and> (case score of [] \<Rightarrow> False | c # _ \<Rightarrow> digit_code c \<or> c \<in> {43, 45, 35}))"

definition contains_analyzed_score :: "utext \<Rightarrow> bool" where
  "contains_analyzed_score s = any_window2 analyzed_pair (split_whitespace s)"

definition internal_phrases :: "utext list" where
  "internal_phrases =
     map text_of [''human model'', ''move model'', ''maia'', ''human-likely'', ''human likely'']"

definition contains_internal_player_facing_text :: "utext \<Rightarrow> bool" where
  "contains_internal_player_facing_text s =
     (let lowercase = lower_text s in
      123 \<in> set s \<or> 125 \<in> set s \<or> contains_text (text_of ''grounded correction'') lowercase
      \<or> list_ex (\<lambda>phrase. contains_text phrase lowercase) internal_phrases
      \<or> contains_analyzed_score s \<or> contains_raw_uci s)"

definition contains_internal_identifier :: "utext \<Rightarrow> bool" where
  "contains_internal_identifier s =
     list_ex (any_window2 (\<lambda>a b. lower_code a \<and> upper_code b))
       (filter (\<lambda>t. \<not> contains_text (text_of ''://'') t) (split_whitespace s))"

definition contains_url :: "utext \<Rightarrow> bool" where
  "contains_url s =
     list_ex (\<lambda>p. contains_text p (lower_text s)) (map text_of [''http://'', ''https://'', ''www.''])"

section \<open>The gate of a HostTurn answer\<close>

datatype refusal_reason = NotAboutThisReview | NotAboutChess | UnsafeRequest

fun refusal_text :: "refusal_reason \<Rightarrow> string" where
  "refusal_text NotAboutThisReview = ''I can only talk about this reviewed game and the moments on the board. Ask about a move, a moment, or a line from this review.''"
| "refusal_text NotAboutChess = ''I can only help with this chess review.''"
| "refusal_text UnsafeRequest = ''I cannot help with that request.''"

datatype show_line = ShowEngineBest | ShowPlayedMoveRefutation | ShowAlternativeMove string

datatype grounding_rejection =
    UngroundedChessLiteral | RejectUrl | InternalVocabulary | InvalidFocus | InvalidShowLine

fun rejection_reason :: "grounding_rejection \<Rightarrow> string" where
  "rejection_reason UngroundedChessLiteral =
     ''the answer named a chess move or square that is not in the allowed literals''"
| "rejection_reason RejectUrl = ''the answer included a URL''"
| "rejection_reason InternalVocabulary =
     ''the answer used internal vocabulary, a raw UCI token, or an internal identifier''"
| "rejection_reason InvalidFocus = ''focusMoment does not name a ply pre-loaded or returned this turn''"
| "rejection_reason InvalidShowLine = ''showLine does not name a line pre-loaded or returned this turn''"

record answer_refs =
  ar_allowed_plies :: "nat list"
  ar_engine_best_allowed :: bool
  ar_played_refutation_allowed :: bool
  ar_alternative_move_ids :: "string list"

fun line_allowed :: "answer_refs \<Rightarrow> show_line \<Rightarrow> bool" where
  "line_allowed refs ShowEngineBest = ar_engine_best_allowed refs"
| "line_allowed refs ShowPlayedMoveRefutation = ar_played_refutation_allowed refs"
| "line_allowed refs (ShowAlternativeMove i) = (i \<in> set (ar_alternative_move_ids refs))"

definition ground_host_turn_answer ::
  "(utext \<Rightarrow> bool) \<Rightarrow> grounding \<Rightarrow> utext \<Rightarrow> nat option \<Rightarrow> show_line option \<Rightarrow> answer_refs
     \<Rightarrow> grounding_rejection + unit" where
  "ground_host_turn_answer san g answer focus_moment show refs =
     (if \<not> grounding_validate san g answer then Inl UngroundedChessLiteral
      else if contains_url answer then Inl RejectUrl
      else if contains_internal_player_facing_text answer \<or> contains_internal_identifier answer
      then Inl InternalVocabulary
      else if (case focus_moment of Some ply \<Rightarrow> ply \<notin> set (ar_allowed_plies refs) | None \<Rightarrow> False)
      then Inl InvalidFocus
      else if (case show of Some line \<Rightarrow> \<not> line_allowed refs line | None \<Rightarrow> False)
      then Inl InvalidShowLine
      else Inr ())"

section \<open>Tokens of tokens\<close>

lemma split_by_pieces: "t \<in> set (split_by p s) \<Longrightarrow> \<forall>c \<in> set t. \<not> p c"
proof (induction s arbitrary: t)
  case (Cons c cs)
  then show ?case by (fastforce split: if_splits list.splits)
qed simp

lemma split_by_none: "\<forall>c \<in> set s. \<not> p c \<Longrightarrow> split_by p s = [s]"
  by (induction s) auto

lemma split_whitespace_pieces: "t \<in> set (split_whitespace s) \<Longrightarrow> \<forall>c \<in> set t. \<not> white_space c"
  using split_by_pieces by (auto simp: split_whitespace_def)

lemma split_whitespace_none: "\<forall>c \<in> set s. \<not> white_space c \<Longrightarrow> s \<noteq> [] \<Longrightarrow> split_whitespace s = [s]"
  by (simp add: split_whitespace_def split_by_none)

lemma set_trim_matches: "set (trim_matches p s) \<subseteq> set s"
  unfolding trim_matches_def by (auto dest!: set_dropWhileD)

lemma trim_matches_ends:
  "trim_matches p s = [] \<or> \<not> p (hd (trim_matches p s)) \<and> \<not> p (last (trim_matches p s))"
proof (cases "dropWhile p s")
  case Nil
  have "trim_matches p s = []" unfolding trim_matches_def Nil by simp
  then show ?thesis ..
next
  case (Cons c cs)
  then have c: "\<not> p c" using hd_dropWhile [of p s] by simp
  let ?r = "dropWhile p (rev (c # cs))"
  have ne: "?r \<noteq> []" using c by (simp add: dropWhile_append)
  have "last ?r = c" using ne c by (induction cs rule: rev_induct) (auto simp: dropWhile_append split: if_splits)
  then have "hd (rev ?r) = c" using ne by (simp add: hd_rev)
  moreover have "\<not> p (last (rev ?r))" using hd_dropWhile [OF ne] by (simp add: last_rev)
  ultimately show ?thesis using c Cons by (simp add: trim_matches_def)
qed

lemma trim_matches_id: "s \<noteq> [] \<Longrightarrow> \<not> p (hd s) \<Longrightarrow> \<not> p (last s) \<Longrightarrow> trim_matches p s = s"
proof -
  assume s: "s \<noteq> []" "\<not> p (hd s)" "\<not> p (last s)"
  have "dropWhile p s = s" using s(1,2) by (cases s) auto
  moreover have "dropWhile p (rev s) = rev s" using s(1,3) by (cases s rule: rev_cases) auto
  ultimately show ?thesis by (simp add: trim_matches_def)
qed

lemma chess_tokens_token: "t \<in> set (chess_tokens s) \<Longrightarrow> chess_tokens t = [t]"
proof -
  assume "t \<in> set (chess_tokens s)"
  then obtain u where u: "u \<in> set (split_whitespace s)" and t: "t = trim_matches (\<lambda>c. \<not> kept_code c) u" "t \<noteq> []"
    by (auto simp: chess_tokens_def normalized_chess_token_def)
  have "\<forall>c \<in> set t. \<not> white_space c" using split_whitespace_pieces [OF u] set_trim_matches t(1) by blast
  then have "split_whitespace t = [t]" using t(2) by (rule split_whitespace_none)
  moreover have "trim_matches (\<lambda>c. \<not> kept_code c) t = t"
    using t(2) trim_matches_ends [of "\<lambda>c. \<not> kept_code c" u] unfolding t(1) [symmetric]
    by (intro trim_matches_id) auto
  ultimately show ?thesis using t(2) by (simp add: chess_tokens_def normalized_chess_token_def)
qed

lemma chess_tokens_square: "is_square s \<Longrightarrow> chess_tokens s = [s]"
proof -
  assume "is_square s"
  then obtain f r where s: "s = [f, r]" "97 \<le> f" "f \<le> 104" "49 \<le> r" "r \<le> 56"
    by (auto simp: is_square_def split: list.splits)
  then have "split_whitespace s = [s]" by (intro split_whitespace_none) (auto simp: white_space_def)
  moreover have "trim_matches (\<lambda>c. \<not> kept_code c) s = s"
    using s by (intro trim_matches_id) (auto simp: kept_code_def alnum_code_def alpha_code_def lower_code_def digit_code_def)
  ultimately show ?thesis using s(1) by (simp add: chess_tokens_def normalized_chess_token_def)
qed

section \<open>The allowlist is closed under its tokens\<close>

definition literals_closed :: "grounding \<Rightarrow> bool" where
  "literals_closed g \<longleftrightarrow> sorted g \<and> distinct g \<and> (\<forall>s \<in> set g. set (chess_tokens s) \<subseteq> set g)"

named_theorems closed_intros \<open>the operations keep an allowlist closed\<close>

lemma set_allow: "set (allow v g) = insert v (set (chess_tokens v)) \<union> set g"
proof -
  have all: "set (fold insort_insert xs g) = set xs \<union> set g" for xs
    by (induction xs arbitrary: g) (auto simp: set_insort_insert)
  show ?thesis unfolding allow_def all by simp
qed

lemma sorted_allow: "sorted g \<and> distinct g \<Longrightarrow> sorted (allow v g) \<and> distinct (allow v g)"
proof -
  assume "sorted g \<and> distinct g"
  then have "sorted (fold insort_insert xs g) \<and> distinct (fold insort_insert xs g)" for xs
    by (induction xs arbitrary: g) (auto simp: sorted_insort_insert distinct_insort_insert)
  then show ?thesis unfolding allow_def .
qed

lemma closed_empty [closed_intros]: "literals_closed grounding_empty"
  by (simp add: literals_closed_def grounding_empty_def)

lemma closed_allow [closed_intros]: "literals_closed g \<Longrightarrow> literals_closed (allow v g)"
  using sorted_allow [of g v] by (auto simp: literals_closed_def set_allow chess_tokens_token)

lemma closed_square [closed_intros]: "literals_closed g \<Longrightarrow> literals_closed (allow_square s g)"
  by (auto simp: literals_closed_def allow_square_def set_insort_insert sorted_insort_insert distinct_insort_insert
      chess_tokens_square)

lemma closed_move [closed_intros]: "literals_closed g \<Longrightarrow> literals_closed (allow_move_san m g)"
  by (auto simp: allow_move_san_def Let_def split: option.splits intro: closed_intros)

lemma closed_uci [closed_intros]: "literals_closed g \<Longrightarrow> literals_closed (allow_uci_squares u g)"
  by (auto simp: allow_uci_squares_def intro: closed_intros)

lemma closed_fold: "(\<And>x g. literals_closed g \<Longrightarrow> literals_closed (f x g)) \<Longrightarrow> literals_closed g
    \<Longrightarrow> literals_closed (fold f xs g)"
  by (induction xs arbitrary: g) auto

lemma closed_all [closed_intros]:
  "literals_closed g \<Longrightarrow> literals_closed (allow_all vs g)"
  "literals_closed g \<Longrightarrow> literals_closed (allow_moves_san vs g)"
  "literals_closed g \<Longrightarrow> literals_closed (allow_uci_squares_all vs g)"
  unfolding allow_all_def allow_moves_san_def allow_uci_squares_all_def
  by (auto intro: closed_fold closed_allow closed_move closed_uci)

lemma set_allow_all: "set (allow_all vs g) = set vs \<union> (\<Union>v \<in> set vs. set (chess_tokens v)) \<union> set g"
  unfolding allow_all_def by (induction vs arbitrary: g) (auto simp: set_allow)

lemma rebuild_closed: "literals_closed g \<Longrightarrow> set (fold allow g grounding_empty) = set g"
  using set_allow_all [of g grounding_empty] by (auto simp: allow_all_def literals_closed_def grounding_empty_def)

lemma grounding_validate_iff:
  "grounding_validate san g s \<longleftrightarrow> (\<forall>t \<in> set (chess_tokens s). san t \<longrightarrow> t \<in> set g)"
  by (auto simp: grounding_validate_def list_ex_iff)

end
