(* ===== verification/PinVerification.thy ===== *)
theory PinVerification
  imports OrdMap
begin

text \<open>
  Pin Verification (\<open>pin_verification.rs\<close>): the lookup of the route that served a generation, its
  retries within the remaining deadline, and the judgement of what it found against the pinned model
  and provider. A duration is a number of nanoseconds. Tracing is left out.
\<close>

section \<open>Types\<close>

datatype pin_verdict = PinPassed | PinFailed | PinUnverified | PinNotApplicable

datatype pin_strictness = Runtime | Harness

datatype pin_cause = Mismatched | VerifyError | MissingIdentity | DeadlineMissed

datatype pin_failure = FailureDeadlineMissed | FailureVerifyError | FailureMissingIdentity

fun pin_cause_str :: "pin_cause \<Rightarrow> string" where
  "pin_cause_str Mismatched = ''mismatched''"
| "pin_cause_str VerifyError = ''verifyError''"
| "pin_cause_str MissingIdentity = ''missingIdentity''"
| "pin_cause_str DeadlineMissed = ''deadlineMissed''"

record served_route =
  sr_endpoint :: "string option"
  sr_region :: "string option"
  sr_routed_service_tier :: "string option"
  sr_verified_permaslug :: string
  sr_verified_provider :: string

record pin_mismatch_report =
  mr_pinned_model :: string
  mr_pinned_provider_family :: string
  mr_observed_permaslug :: "string option"
  mr_observed_provider :: "string option"
  mr_observed_provider_family :: "string option"
  mr_served_endpoint :: "string option"
  mr_served_region :: "string option"
  mr_routed_service_tier :: "string option"

datatype pin_judgement =
    JudgePassed served_route | JudgeMismatched pin_mismatch_report | JudgeFailed pin_failure
  | JudgeUnverified | JudgeNotApplicable

fun as_harness_label :: "pin_judgement \<Rightarrow> string" where
  "as_harness_label (JudgePassed _) = ''passed''"
| "as_harness_label (JudgeMismatched _) = ''failed''"
| "as_harness_label JudgeUnverified = ''unverified''"
| "as_harness_label (JudgeFailed _) = ''unverified''"
| "as_harness_label JudgeNotApplicable = ''notApplicable''"

fun as_verdict :: "pin_judgement \<Rightarrow> pin_verdict" where
  "as_verdict (JudgePassed _) = PinPassed"
| "as_verdict (JudgeMismatched _) = PinFailed"
| "as_verdict JudgeUnverified = PinUnverified"
| "as_verdict (JudgeFailed _) = PinFailed"
| "as_verdict JudgeNotApplicable = PinNotApplicable"

fun pin_mismatched :: "pin_judgement \<Rightarrow> bool" where
  "pin_mismatched (JudgeMismatched _) = True"
| "pin_mismatched _ = False"

fun served_route_of :: "pin_judgement \<Rightarrow> served_route option" where
  "served_route_of (JudgePassed r) = Some r"
| "served_route_of _ = None"

fun pin_cause_of :: "pin_judgement \<Rightarrow> pin_cause option" where
  "pin_cause_of (JudgeMismatched _) = Some Mismatched"
| "pin_cause_of (JudgeFailed FailureVerifyError) = Some VerifyError"
| "pin_cause_of (JudgeFailed FailureMissingIdentity) = Some MissingIdentity"
| "pin_cause_of (JudgeFailed FailureDeadlineMissed) = Some DeadlineMissed"
| "pin_cause_of _ = None"

fun mismatch_report :: "pin_judgement \<Rightarrow> pin_mismatch_report option" where
  "mismatch_report (JudgeMismatched r) = Some r"
| "mismatch_report _ = None"

text \<open>The fields of the provider's lookup that are read here.\<close>

record pin_lookup =
  pl_permaslug :: "string option"
  pl_provider :: "string option"
  pl_endpoint_id :: "string option"
  pl_region :: "string option"
  pl_service_tier :: "string option"
  pl_error :: "string option"

section \<open>Provider families\<close>

definition provider_family :: "string \<Rightarrow> string" where
  "provider_family display_name =
     (if display_name = ''Amazon Bedrock'' then ''amazon-bedrock''
      else if display_name = ''Google'' \<or> display_name = ''Google Vertex'' then ''google-vertex''
      else if display_name = ''Google AI Studio'' then ''google-ai-studio''
      else if display_name = ''Azure'' then ''azure''
      else if display_name = ''Anthropic'' then ''anthropic''
      else if display_name = ''OpenAI'' then ''openai''
      else display_name)"

definition pinned_provider_family :: "string \<Rightarrow> string" where
  "pinned_provider_family provider_only = takeWhile (\<lambda>c. c \<noteq> CHR ''/'') provider_only"

definition recorded_service_tier :: "string option \<Rightarrow> string option" where
  "recorded_service_tier routed = routed"

section \<open>The lookup\<close>

definition verify_deadline_exhausted :: "nat \<Rightarrow> bool" where
  "verify_deadline_exhausted remaining \<longleftrightarrow> remaining = 0"

definition VERIFY_NOT_FOUND_BACKOFF :: "nat list" where
  "VERIFY_NOT_FOUND_BACKOFF = [150 * 1000000, 500 * 1000000]"

fun contains_str :: "'a list \<Rightarrow> 'a list \<Rightarrow> bool" where
  "contains_str needle [] = (needle = [])"
| "contains_str needle (c # cs) = (take (length needle) (c # cs) = needle \<or> contains_str needle cs)"

definition parse_is_generation_pending :: "string \<Rightarrow> bool" where
  "parse_is_generation_pending error = contains_str ''returned 404'' error"

text \<open>The provider answers the \<open>k\<close>-th lookup after a time; the result is the time the sequence takes,
  the lookups made and the last of them.\<close>

fun past_the_race :: "(nat \<Rightarrow> nat \<times> pin_lookup) \<Rightarrow> nat list \<Rightarrow> nat \<Rightarrow> nat \<Rightarrow> pin_lookup \<Rightarrow> nat \<times> nat \<times> pin_lookup" where
  "past_the_race lookups [] k time verification = (time, k, verification)"
| "past_the_race lookups (backoff # rest) k time verification =
     (case pl_error verification of
        None \<Rightarrow> (time, k, verification)
      | Some error \<Rightarrow>
          if parse_is_generation_pending error
          then past_the_race lookups rest (k + 1) (time + backoff + fst (lookups k)) (snd (lookups k))
          else (time, k, verification))"

definition verify_generation_past_the_race :: "(nat \<Rightarrow> nat \<times> pin_lookup) \<Rightarrow> nat \<times> nat \<times> pin_lookup" where
  "verify_generation_past_the_race lookups =
     past_the_race lookups VERIFY_NOT_FOUND_BACKOFF 1 (fst (lookups 0)) (snd (lookups 0))"

definition verify_generation_within_deadline ::
  "(nat \<Rightarrow> nat \<times> pin_lookup) \<Rightarrow> nat \<Rightarrow> pin_failure + pin_lookup" where
  "verify_generation_within_deadline lookups remaining =
     (if verify_deadline_exhausted remaining then Inl FailureDeadlineMissed
      else (let (time, calls, verification) = verify_generation_past_the_race lookups
            in if time \<le> remaining then Inr verification else Inl FailureDeadlineMissed))"

section \<open>The judgement\<close>

fun unverified_or_fail :: "pin_strictness \<Rightarrow> pin_failure \<Rightarrow> pin_judgement" where
  "unverified_or_fail Runtime failure = JudgeFailed failure"
| "unverified_or_fail Harness failure = JudgeUnverified"

fun judge_completed_verification ::
  "pin_failure + pin_lookup \<Rightarrow> string \<Rightarrow> string \<Rightarrow> bool \<Rightarrow> pin_strictness \<Rightarrow> pin_judgement" where
  "judge_completed_verification (Inl failure) expected_model provider_only completed strictness =
     unverified_or_fail strictness failure"
| "judge_completed_verification (Inr pin) expected_model provider_only completed strictness =
     (if pl_error pin \<noteq> None then unverified_or_fail strictness FailureVerifyError
      else (case (pl_permaslug pin, pl_provider pin) of
          (Some permaslug, Some provider) \<Rightarrow>
            (let family = pinned_provider_family provider_only; observed_family = provider_family provider
             in if permaslug = expected_model \<and> observed_family = family
                then JudgePassed \<lparr>sr_endpoint = pl_endpoint_id pin, sr_region = pl_region pin,
                       sr_routed_service_tier = recorded_service_tier (pl_service_tier pin),
                       sr_verified_permaslug = permaslug, sr_verified_provider = provider\<rparr>
                else JudgeMismatched \<lparr>mr_pinned_model = expected_model, mr_pinned_provider_family = family,
                       mr_observed_permaslug = Some permaslug, mr_observed_provider = Some provider,
                       mr_observed_provider_family = Some observed_family, mr_served_endpoint = pl_endpoint_id pin,
                       mr_served_region = pl_region pin,
                       mr_routed_service_tier = recorded_service_tier (pl_service_tier pin)\<rparr>)
        | _ \<Rightarrow> if completed then unverified_or_fail strictness FailureMissingIdentity else JudgeNotApplicable))"

section \<open>Properties\<close>

definition pending :: "pin_lookup \<Rightarrow> bool" where
  "pending l \<longleftrightarrow> (\<exists>e. pl_error l = Some e \<and> parse_is_generation_pending e)"

text \<open>Where the loop stops: every lookup before the last was pending, the last is not unless the backoffs are
  used up, and the time is that of the lookups and the backoffs between them.\<close>

definition race_stops ::
  "(nat \<Rightarrow> nat \<times> pin_lookup) \<Rightarrow> nat list \<Rightarrow> nat \<Rightarrow> nat \<Rightarrow> nat \<Rightarrow> nat \<Rightarrow> pin_lookup \<Rightarrow> bool" where
  "race_stops lookups backoffs k time t n l \<longleftrightarrow>
     k \<le> n \<and> n \<le> k + length backoffs \<and> l = snd (lookups (n - 1))
     \<and> (\<forall>i. k - 1 \<le> i \<and> i < n - 1 \<longrightarrow> pending (snd (lookups i))) \<and> (pending l \<longrightarrow> n = k + length backoffs)
     \<and> t = time + sum_list (take (n - k) backoffs) + sum_list (map (fst \<circ> lookups) [k..<n])"

lemma race_stopsD:
  assumes "race_stops lookups backoffs k time t n l"
  shows "k \<le> n" and "n \<le> k + length backoffs" and "l = snd (lookups (n - 1))"
    and "\<forall>i. k - 1 \<le> i \<and> i < n - 1 \<longrightarrow> pending (snd (lookups i))"
    and "pending l \<Longrightarrow> n = k + length backoffs"
    and "t = time + sum_list (take (n - k) backoffs) + sum_list (map (fst \<circ> lookups) [k..<n])"
  using assms unfolding race_stops_def by blast+

lemma past_the_race_result:
  assumes "past_the_race lookups backoffs k time v = (t, n, l)" and "v = snd (lookups (k - 1))" and "0 < k"
  shows "race_stops lookups backoffs k time t n l"
  using assms
proof (induction backoffs arbitrary: k time v)
  case Nil
  then show ?case by (auto simp: race_stops_def)
next
  case (Cons b bs)
  show ?case
  proof (cases "pending v")
    case False
    then have "(time, k, v) = (t, n, l)" using Cons.prems(1) by (auto simp: pending_def split: option.splits if_splits)
    then show ?thesis using Cons.prems(2,3) False by (auto simp: race_stops_def)
  next
    case True
    then have run: "past_the_race lookups bs (k + 1) (time + b + fst (lookups k)) (snd (lookups k)) = (t, n, l)"
      using Cons.prems(1) by (auto simp: pending_def split: option.splits if_splits)
    have ih: "race_stops lookups bs (k + 1) (time + b + fst (lookups k)) t n l"
      by (rule Cons.IH [OF run]) simp_all
    note ihs = race_stopsD [OF ih]
    have earlier: "pending (snd (lookups i))" if "k - 1 \<le> i" "i < n - 1" for i
    proof (cases "i = k - 1")
      case True
      then show ?thesis using \<open>pending v\<close> Cons.prems(2) by simp
    next
      case False
      then have "k + 1 - 1 \<le> i" using that(1) by linarith
      then show ?thesis using ihs(4) that(2) by blast
    qed
    have upt: "[k..<n] = k # [k + 1..<n]" using ihs(1) by (simp add: upt_conv_Cons)
    have "n - k = Suc (n - (k + 1))" using ihs(1) by arith
    then have take: "take (n - k) (b # bs) = b # take (n - (k + 1)) bs" by simp
    have time: "t = time + sum_list (take (n - k) (b # bs)) + sum_list (map (fst \<circ> lookups) [k..<n])"
      unfolding upt take using ihs(6) by simp
    show ?thesis
      unfolding race_stops_def
      by (intro conjI allI impI)
        (use ihs(1) in linarith, use ihs(2) in simp, rule ihs(3), use earlier in blast, use ihs(5) in simp, rule time)
  qed
qed

text \<open>C38: Pin Verification within a deadline. It makes at most three lookups, the second and third only after
  one that read "returned 404", it uses exactly the last of them, and it gives no answer that came after the
  deadline: the time of the lookups and of the pauses between them is within it.\<close>

theorem verify_lookups_bounded:
  assumes "verify_generation_within_deadline lookups remaining = Inr l"
  shows "\<exists>n. 1 \<le> n \<and> n \<le> 3 \<and> l = snd (lookups (n - 1))
    \<and> (\<forall>i < n - 1. pending (snd (lookups i))) \<and> (pending l \<longrightarrow> n = 3)
    \<and> sum_list (take (n - 1) VERIFY_NOT_FOUND_BACKOFF) + sum_list (map (fst \<circ> lookups) [0..<n]) \<le> remaining"
proof -
  obtain t n where run: "verify_generation_past_the_race lookups = (t, n, l)" and t: "t \<le> remaining"
    using assms by (auto simp: verify_generation_within_deadline_def Let_def split: if_splits prod.splits)
  have stops: "race_stops lookups VERIFY_NOT_FOUND_BACKOFF 1 (fst (lookups 0)) t n l"
    by (rule past_the_race_result [OF run [unfolded verify_generation_past_the_race_def]]) simp_all
  note stop = race_stopsD [OF stops]
  have len: "1 + length VERIFY_NOT_FOUND_BACKOFF = 3" by (simp add: VERIFY_NOT_FOUND_BACKOFF_def)
  have n: "1 \<le> n" "n \<le> 3" "l = snd (lookups (n - 1))" "pending l \<Longrightarrow> n = 3"
    using stop(1-3,5) unfolding len by blast+
  have earlier: "\<forall>i < n - 1. pending (snd (lookups i))" using stop(4) by simp
  have "[0..<n] = 0 # [1..<n]" using n(1) by (simp add: upt_conv_Cons)
  then have "sum_list (take (n - 1) VERIFY_NOT_FOUND_BACKOFF) + sum_list (map (fst \<circ> lookups) [0..<n]) \<le> remaining"
    using stop(6) t by simp
  then show ?thesis using n earlier by blast
qed

definition sample_lookup :: "string option \<Rightarrow> pin_lookup" where
  "sample_lookup e =
     \<lparr>pl_permaslug = Some ''m'', pl_provider = Some ''Google'', pl_endpoint_id = None, pl_region = None,
      pl_service_tier = None, pl_error = e\<rparr>"

definition sample_lookups :: "nat \<Rightarrow> nat \<times> pin_lookup" where
  "sample_lookups k = (5, sample_lookup (if k = 0 then Some ''returned 404'' else None))"

theorem verify_lookups_bounded_witness:
  "\<exists>n. 1 \<le> n \<and> n \<le> 3 \<and> sample_lookup None = snd (sample_lookups (n - 1))
    \<and> sum_list (take (n - 1) VERIFY_NOT_FOUND_BACKOFF) + sum_list (map (fst \<circ> sample_lookups) [0..<n]) \<le> 200000000"
proof -
  have run: "verify_generation_within_deadline sample_lookups 200000000 = Inr (sample_lookup None)"
    by code_simp
  obtain n where "1 \<le> n" "n \<le> 3" "sample_lookup None = snd (sample_lookups (n - 1))"
      "sum_list (take (n - 1) VERIFY_NOT_FOUND_BACKOFF) + sum_list (map (fst \<circ> sample_lookups) [0..<n]) \<le> 200000000"
    using verify_lookups_bounded [OF run] by (elim exE conjE)
  then show ?thesis by (intro exI [of _ n] conjI)
qed

definition observed :: "pin_failure + pin_lookup \<Rightarrow> (string \<times> string) option" where
  "observed result = (case result of
     Inl _ \<Rightarrow> None
   | Inr l \<Rightarrow> if pl_error l \<noteq> None then None
       else (case (pl_permaslug l, pl_provider l) of (Some m, Some p) \<Rightarrow> Some (m, p) | _ \<Rightarrow> None))"

definition on_pin :: "string \<Rightarrow> string \<Rightarrow> string \<times> string \<Rightarrow> bool" where
  "on_pin model provider_only route \<longleftrightarrow>
     fst route = model \<and> provider_family (snd route) = pinned_provider_family provider_only"

text \<open>C39: What a judgement says. At runtime a generation passes exactly when the lookup came in time without an
  error and named the pinned model and a provider of the pinned family; it is judged a mismatch exactly when the
  lookup named both and one of them differs; and no judgement is left unverified, nor that of a
  completed generation not applicable, so every other completed generation has the verdict failed.\<close>

theorem pin_judgement_exact:
  assumes "judge_completed_verification result model provider_only completed Runtime = j"
  shows "(as_verdict j = PinPassed \<longleftrightarrow> (\<exists>route. observed result = Some route \<and> on_pin model provider_only route))
    \<and> (pin_mismatched j \<longleftrightarrow> (\<exists>route. observed result = Some route \<and> \<not> on_pin model provider_only route))
    \<and> as_verdict j \<noteq> PinUnverified \<and> (completed \<longrightarrow> as_verdict j \<noteq> PinNotApplicable)"
proof (cases result)
  case (Inl failure)
  then show ?thesis using assms by (auto simp: observed_def)
next
  case (Inr l)
  show ?thesis
  proof (cases "pl_error l")
    case (Some e)
    then show ?thesis using assms Inr by (auto simp: observed_def)
  next
    case None
    then show ?thesis using assms Inr
      by (cases "pl_permaslug l"; cases "pl_provider l") (auto simp: observed_def on_pin_def Let_def split: if_splits)
  qed
qed

theorem pin_judgement_exact_witness:
  "\<exists>j. judge_completed_verification (Inr (sample_lookup None)) ''m'' ''google-vertex/us'' True Runtime = j
     \<and> as_verdict j = PinPassed"
proof -
  have "observed (Inr (sample_lookup None)) = Some (''m'', ''Google'')" "on_pin ''m'' ''google-vertex/us'' (''m'', ''Google'')"
    by code_simp+
  then show ?thesis
    using pin_judgement_exact [of "Inr (sample_lookup None)" "''m''" "''google-vertex/us''" True, OF refl] by blast
qed

end
