(* ===== verification/Ledger.thy ===== *)
theory Ledger
  imports PinVerification
begin

text \<open>
  Language Layer admission and the spend ledger (\<open>language_layer_ledger.rs\<close>): the money constants,
  the process-local spend of a Review Session, the in-memory ledger, the provider cooldown, the
  operational records, and admission. Money is in micros of a dollar (\<open>i64\<close>), a \<open>Duration\<close> and an
  \<open>Instant\<close> are numbers of nanoseconds.
\<close>

section \<open>Arithmetic of i64\<close>

definition i64_max :: int where "i64_max = 9223372036854775807"
definition i64_min :: int where "i64_min = - 9223372036854775808"

definition isat_add :: "int \<Rightarrow> int \<Rightarrow> int" where
  "isat_add a b = max i64_min (min i64_max (a + b))"

lemma isat_add_exact: "i64_min \<le> a + b \<Longrightarrow> a + b \<le> i64_max \<Longrightarrow> isat_add a b = a + b"
  by (simp add: isat_add_def)

section \<open>Constants and configuration\<close>

definition OPERATION_CEILING_MICROS :: int where "OPERATION_CEILING_MICROS = 5000"
definition OPERATION_WORST_CASE_MICROS :: int where "OPERATION_WORST_CASE_MICROS = 4500"
definition HOST_TURN_MAX_STEPS :: int where "HOST_TURN_MAX_STEPS = 3"
definition HOST_TURN_ENVELOPE_MICROS :: int where
  "HOST_TURN_ENVELOPE_MICROS = (HOST_TURN_MAX_STEPS + 1) * OPERATION_CEILING_MICROS"
definition REVIEW_SESSION_CEILING_MICROS :: int where "REVIEW_SESSION_CEILING_MICROS = 25000"
definition PLAYER_CEILING_MICROS :: int where "PLAYER_CEILING_MICROS = 500000"
definition GLOBAL_CEILING_MICROS :: int where "GLOBAL_CEILING_MICROS = 25000000"
definition COMMENT_AUTHORING_DEADLINE_SECONDS :: nat where "COMMENT_AUTHORING_DEADLINE_SECONDS = 10"
definition COACH_TURN_DEADLINE_SECONDS :: nat where "COACH_TURN_DEADLINE_SECONDS = 30"
definition HOST_TURN_DEADLINE_SECONDS :: nat where "HOST_TURN_DEADLINE_SECONDS = 15"

lemmas money_defs = OPERATION_CEILING_MICROS_def OPERATION_WORST_CASE_MICROS_def HOST_TURN_MAX_STEPS_def
  HOST_TURN_ENVELOPE_MICROS_def REVIEW_SESSION_CEILING_MICROS_def PLAYER_CEILING_MICROS_def
  GLOBAL_CEILING_MICROS_def

definition seconds :: "nat \<Rightarrow> nat" where "seconds n = n * 1000000000"
definition MAX_DURATION :: nat where "MAX_DURATION = 18446744073709551615 * 1000000000 + 999999999"
definition MAX_HONORED_RETRY_AFTER :: nat where "MAX_HONORED_RETRY_AFTER = seconds (15 * 60)"

record admission_config =
  max_concurrent_provider_calls :: nat
  provider_attempt_timeout_ceiling :: nat
  comment_authoring_deadline :: nat
  coach_turn_authoring_deadline :: nat
  host_turn_authoring_deadline :: nat
  rate_shaped_retry_delay :: nat

definition conservative_defaults :: admission_config where
  "conservative_defaults =
     \<lparr>max_concurrent_provider_calls = 4, provider_attempt_timeout_ceiling = seconds 20,
      comment_authoring_deadline = seconds COMMENT_AUTHORING_DEADLINE_SECONDS,
      coach_turn_authoring_deadline = seconds COACH_TURN_DEADLINE_SECONDS,
      host_turn_authoring_deadline = seconds HOST_TURN_DEADLINE_SECONDS,
      rate_shaped_retry_delay = seconds 1\<rparr>"

definition concurrent_overshoot_bound_micros :: "admission_config \<Rightarrow> int" where
  "concurrent_overshoot_bound_micros c =
     (int (max_concurrent_provider_calls c) - 1) * OPERATION_CEILING_MICROS"

definition slot_wait :: "admission_config \<Rightarrow> nat \<Rightarrow> nat" where
  "slot_wait c remaining_deadline = min remaining_deadline (provider_attempt_timeout_ceiling c)"

definition rate_limit_cooldown :: "admission_config \<Rightarrow> nat option \<Rightarrow> nat" where
  "rate_limit_cooldown c retry_after = (case retry_after of
     Some wait \<Rightarrow> if wait \<noteq> 0 then wait else rate_shaped_retry_delay c
   | None \<Rightarrow> rate_shaped_retry_delay c)"

section \<open>Tasks, decisions and records\<close>

datatype hosted_task = Comment | HostTurn

datatype hosted_fallback = SafeRendering | FallbackUnavailable

fun task_fallback :: "hosted_task \<Rightarrow> hosted_fallback" where
  "task_fallback Comment = SafeRendering"
| "task_fallback HostTurn = FallbackUnavailable"

datatype budget_decision = BudgetAdmitted | BudgetDenied | BudgetProviderCooldown

fun budget_decision_str :: "budget_decision \<Rightarrow> string" where
  "budget_decision_str BudgetAdmitted = ''admitted''"
| "budget_decision_str BudgetDenied = ''denied''"
| "budget_decision_str BudgetProviderCooldown = ''providerCooldown''"

datatype denial_reason =
    ReviewSessionCeiling | PlayerCeiling | GlobalCeiling | ConcurrencyUnavailable | ProviderCooldown

fun denial_reason_str :: "denial_reason \<Rightarrow> string" where
  "denial_reason_str ReviewSessionCeiling = ''reviewSessionCeiling''"
| "denial_reason_str PlayerCeiling = ''playerCeiling''"
| "denial_reason_str GlobalCeiling = ''globalCeiling''"
| "denial_reason_str ConcurrencyUnavailable = ''concurrencyUnavailable''"
| "denial_reason_str ProviderCooldown = ''providerCooldown''"

datatype attempt_error_class = Cancelled | TimedOut | DeadlineExhausted | RateLimited

fun attempt_error_class_str :: "attempt_error_class \<Rightarrow> string" where
  "attempt_error_class_str Cancelled = ''cancelled''"
| "attempt_error_class_str TimedOut = ''timedOut''"
| "attempt_error_class_str DeadlineExhausted = ''deadlineExhausted''"
| "attempt_error_class_str RateLimited = ''rateLimited''"

datatype rate_limit_delay_source = Header | RetryInfo | Unspecified

datatype completion_outcome =
    Completed | EmptyCompletion | HttpError | InvalidRequest | SchemaRejected | OutcomeTimedOut
  | OutcomeDeadlineExhausted | TransportError | OutcomeRateLimit "nat option" rate_limit_delay_source

fun from_completion :: "completion_outcome \<Rightarrow> attempt_error_class option" where
  "from_completion OutcomeTimedOut = Some TimedOut"
| "from_completion OutcomeDeadlineExhausted = Some DeadlineExhausted"
| "from_completion (OutcomeRateLimit _ _) = Some RateLimited"
| "from_completion _ = None"

text \<open>The cost is the provider's dollar amount times a million, rounded, when it is a finite number. The raw
  content is a list of Unicode scalar values.\<close>

record completion_attempt =
  ca_latency :: nat
  ca_http_status :: "nat option"
  ca_generation_id :: "string option"
  ca_served_model :: "string option"
  ca_served_provider :: "string option"
  ca_prompt_tokens :: "nat option"
  ca_completion_tokens :: "nat option"
  ca_reasoning_tokens :: "nat option"
  ca_rounded_micros :: "int option"
  ca_finish_reason :: "string option"
  ca_raw_content :: "nat list option"
  ca_outcome :: completion_outcome

definition cost_micros :: "int option \<Rightarrow> int" where
  "cost_micros rounded = (case rounded of
     None \<Rightarrow> 0
   | Some micros \<Rightarrow> if micros \<le> 0 then 0 else if micros \<ge> i64_max then i64_max else micros)"

datatype capture_outcome = Published | CaptureRejected | CaptureFailed | BudgetRefused | CaptureProviderCooldown

datatype step_capability = CapReadMoment | CapListMoments | CapEvaluateLine | CapLearningMaterial

record step_observation =
  so_served_model :: "string option"
  so_served_provider :: "string option"
  so_prompt_tokens :: "nat option"
  so_completion_tokens :: "nat option"
  so_cost_micros :: int
  so_capability :: "step_capability option"

record op_record =
  or_request_id :: string
  or_player_id :: string
  or_settled_at :: int
  or_latency :: nat
  or_cost_micros :: int
  or_prompt_tokens :: "nat option"
  or_completion_tokens :: "nat option"
  or_budget_decision :: budget_decision
  or_denial_reason :: "denial_reason option"
  or_error_class :: "attempt_error_class option"
  or_pin_verification :: pin_verdict
  or_pin_cause :: "pin_cause option"
  or_fingerprint_digest :: string
  or_capture_outcome :: "capture_outcome option"
  or_provider_cooldown :: "nat option"
  or_steps :: "step_observation list"

record attempt_context =
  cx_player_id :: string
  cx_task :: hosted_task
  cx_remaining_deadline :: nat
  cx_as_of :: int
  cx_fingerprint_digest :: string
  cx_cancelled :: bool
  cx_in_flight_cancelled :: bool
  cx_pin :: pin_judgement

text \<open>The records of an attempt; the request id is the fresh UUID of \<open>next_request_id\<close>.\<close>

definition cancelled_without_provider :: "string \<Rightarrow> attempt_context \<Rightarrow> op_record" where
  "cancelled_without_provider request_id cx =
     \<lparr>or_request_id = request_id, or_player_id = cx_player_id cx, or_settled_at = cx_as_of cx,
      or_latency = 0, or_cost_micros = 0, or_prompt_tokens = None, or_completion_tokens = None,
      or_budget_decision = BudgetAdmitted, or_denial_reason = None, or_error_class = Some Cancelled,
      or_pin_verification = as_verdict JudgeNotApplicable, or_pin_cause = pin_cause_of JudgeNotApplicable,
      or_fingerprint_digest = cx_fingerprint_digest cx, or_capture_outcome = None,
      or_provider_cooldown = None, or_steps = []\<rparr>"

definition denied_record :: "string \<Rightarrow> attempt_context \<Rightarrow> denial_reason \<Rightarrow> nat option \<Rightarrow> op_record" where
  "denied_record request_id cx reason honoured =
     (let (decision, capture, cooldown) =
        (if reason = ProviderCooldown then (BudgetProviderCooldown, CaptureProviderCooldown, honoured)
         else (BudgetDenied, BudgetRefused, None))
      in \<lparr>or_request_id = request_id, or_player_id = cx_player_id cx, or_settled_at = cx_as_of cx,
          or_latency = 0, or_cost_micros = 0, or_prompt_tokens = None, or_completion_tokens = None,
          or_budget_decision = decision, or_denial_reason = Some reason, or_error_class = None,
          or_pin_verification = as_verdict JudgeNotApplicable, or_pin_cause = pin_cause_of JudgeNotApplicable,
          or_fingerprint_digest = cx_fingerprint_digest cx, or_capture_outcome = Some capture,
          or_provider_cooldown = cooldown, or_steps = []\<rparr>)"

definition admitted_record ::
  "string \<Rightarrow> attempt_context \<Rightarrow> completion_attempt \<Rightarrow> int \<Rightarrow> nat option \<Rightarrow> op_record" where
  "admitted_record request_id cx a cost cooldown =
     \<lparr>or_request_id = request_id, or_player_id = cx_player_id cx, or_settled_at = cx_as_of cx,
      or_latency = ca_latency a, or_cost_micros = cost, or_prompt_tokens = ca_prompt_tokens a,
      or_completion_tokens = ca_completion_tokens a, or_budget_decision = BudgetAdmitted,
      or_denial_reason = None,
      or_error_class = (if cx_in_flight_cancelled cx then Some Cancelled else from_completion (ca_outcome a)),
      or_pin_verification = as_verdict (cx_pin cx), or_pin_cause = pin_cause_of (cx_pin cx),
      or_fingerprint_digest = cx_fingerprint_digest cx, or_capture_outcome = None,
      or_provider_cooldown = cooldown, or_steps = []\<rparr>"

section \<open>The spend of a Review Session\<close>

record spend =
  committed :: int
  reserved :: int

definition spend_new :: spend where "spend_new = \<lparr>committed = 0, reserved = 0\<rparr>"

definition spent_micros :: "spend \<Rightarrow> int" where
  "spent_micros s = isat_add (committed s) (reserved s)"

definition record_spend :: "int \<Rightarrow> spend \<Rightarrow> spend" where
  "record_spend cost s =
     (if cost \<le> 0 then s
      else (let from_reserve = min (reserved s) cost
            in \<lparr>committed = isat_add (committed s) cost, reserved = reserved s - from_reserve\<rparr>))"

definition try_reserve :: "int \<Rightarrow> spend \<Rightarrow> bool \<times> spend" where
  "try_reserve micros s =
     (if micros \<le> 0 then (True, s)
      else if isat_add (isat_add (committed s) (reserved s)) micros > REVIEW_SESSION_CEILING_MICROS
      then (False, s)
      else (True, s\<lparr>reserved := isat_add (reserved s) micros\<rparr>))"

definition release_reservation :: "int \<Rightarrow> spend \<Rightarrow> spend" where
  "release_reservation micros s =
     (if micros \<le> 0 then s
      else s\<lparr>reserved := reserved s - min (reserved s) micros\<rparr>)"

section \<open>The in-memory ledger\<close>

text \<open>How \<open>chrono\<close> writes the date of a day number and the month of a moment, and its first day.\<close>

record calendar =
  cal_day :: "int \<Rightarrow> string"
  cal_month :: "int \<Rightarrow> string"
  cal_first_day :: int

definition day_number :: "int \<Rightarrow> int" where
  "day_number t = t div 86400000000000"

definition day_key :: "calendar \<Rightarrow> int \<Rightarrow> string" where
  "day_key cal t = cal_day cal (day_number t)"

definition month_key :: "calendar \<Rightarrow> int \<Rightarrow> string" where
  "month_key cal t = cal_month cal t"

record memory_ledger =
  player_days :: "(string, (string, int) btree_map) btree_map"
  global_months :: "(string, int) btree_map"
  op_records :: "op_record list"

definition memory_new :: memory_ledger where
  "memory_new = \<lparr>player_days = [], global_months = [], op_records = []\<rparr>"

definition or_zero :: "int option \<Rightarrow> int" where
  "or_zero x = (case x of None \<Rightarrow> 0 | Some v \<Rightarrow> v)"

text \<open>The loop over the trailing days, over a lookup by day.\<close>

fun sum_days :: "calendar \<Rightarrow> (string \<Rightarrow> int option) \<Rightarrow> int \<Rightarrow> nat list \<Rightarrow> int \<Rightarrow> int" where
  "sum_days cal get end_day [] acc = acc"
| "sum_days cal get end_day (k # ks) acc =
     (if end_day - int k < cal_first_day cal then acc
      else sum_days cal get end_day ks
        (case get (cal_day cal (end_day - int k)) of None \<Rightarrow> acc | Some s \<Rightarrow> isat_add acc s))"

definition player_rolling_30_day :: "calendar \<Rightarrow> string \<Rightarrow> int \<Rightarrow> memory_ledger \<Rightarrow> int" where
  "player_rolling_30_day cal player as_of l =
     (case bt_get (player_days l) player of
        None \<Rightarrow> 0
      | Some days \<Rightarrow> sum_days cal (bt_get days) (day_number as_of) [0..<30] 0)"

definition global_calendar_month :: "calendar \<Rightarrow> int \<Rightarrow> memory_ledger \<Rightarrow> int" where
  "global_calendar_month cal as_of l = or_zero (bt_get (global_months l) (month_key cal as_of))"

definition billed :: "op_record \<Rightarrow> bool" where
  "billed r \<longleftrightarrow> or_budget_decision r = BudgetAdmitted \<and> or_cost_micros r > 0"

definition settle :: "calendar \<Rightarrow> op_record \<Rightarrow> memory_ledger \<Rightarrow> memory_ledger" where
  "settle cal r l =
     (let l1 = (if billed r then
                  (let days = (case bt_get (player_days l) (or_player_id r) of None \<Rightarrow> [] | Some d \<Rightarrow> d);
                       day = day_key cal (or_settled_at r);
                       month = month_key cal (or_settled_at r);
                       days' = bt_insert day (isat_add (or_zero (bt_get days day)) (or_cost_micros r)) days
                   in l\<lparr>player_days := bt_insert (or_player_id r) days' (player_days l),
                        global_months := bt_insert month
                          (isat_add (or_zero (bt_get (global_months l) month)) (or_cost_micros r)) (global_months l)\<rparr>)
                else l)
      in l1\<lparr>op_records := op_records l1 @ [r]\<rparr>)"

section \<open>The provider cooldown\<close>

record cooldown =
  cd_until :: "nat option"
  cd_consecutive_429s :: nat
  cd_honoured :: "nat option"

definition cooldown_new :: cooldown where
  "cooldown_new = \<lparr>cd_until = None, cd_consecutive_429s = 0, cd_honoured = None\<rparr>"

definition cooldown_remaining :: "nat \<Rightarrow> cooldown \<Rightarrow> nat option" where
  "cooldown_remaining now c = (case cd_until c of
     None \<Rightarrow> None
   | Some deadline \<Rightarrow> if now < deadline then Some (deadline - now) else None)"

definition escalated_rate_limit_floor :: "nat \<Rightarrow> nat \<Rightarrow> nat" where
  "escalated_rate_limit_floor floor consecutive =
     (let shift = min (sat_sub consecutive 1) 31;
          scaled = floor * 2 ^ shift
      in min (if scaled \<le> MAX_DURATION then scaled else MAX_HONORED_RETRY_AFTER) MAX_HONORED_RETRY_AFTER)"

definition honor_rate_limit ::
  "admission_config \<Rightarrow> nat \<Rightarrow> nat option \<Rightarrow> cooldown \<Rightarrow> nat \<times> cooldown" where
  "honor_rate_limit config now retry_after c =
     (let consecutive = sat_add u32_max (cd_consecutive_429s c) 1;
          escalated_floor = escalated_rate_limit_floor (rate_shaped_retry_delay config) consecutive;
          advertised = rate_limit_cooldown config retry_after;
          wait = min (max advertised escalated_floor) MAX_HONORED_RETRY_AFTER;
          deadline = now + wait;
          until' = (case cd_until c of
             Some existing \<Rightarrow> if existing \<ge> deadline then Some existing else Some deadline
           | None \<Rightarrow> Some deadline)
      in (wait, \<lparr>cd_until = until', cd_consecutive_429s = consecutive, cd_honoured = Some wait\<rparr>))"

definition note_non_rate_limited :: "nat \<Rightarrow> cooldown \<Rightarrow> cooldown" where
  "note_non_rate_limited now c =
     (let c' = c\<lparr>cd_consecutive_429s := 0\<rparr>
      in if cooldown_remaining now c' = None then c'\<lparr>cd_until := None, cd_honoured := None\<rparr> else c')"

end
