(* ===== verification/HostTurnStep.thy ===== *)
theory HostTurnStep
  imports Grounding Ledger
begin

text \<open>
  The steps of a HostTurn: decoding the model's flattened step (\<open>review_session_host/step.rs\<close>), the
  identity of a capability call (\<open>capabilities.rs\<close>), the gate on the Player's message
  (\<open>review_session_coaching/hosted_author.rs\<close>), what the results of the capabilities add to the turn, and
  the text blocks of the prompt (\<open>review_session_processor/host_turn.rs\<close>).
\<close>

section \<open>Capability calls\<close>

datatype reference_classification = ImprovementOpportunity

datatype moment_reference = AtPly nat | NextMoment "reference_classification option"

datatype opponent_replies = EngineBest | Supplied

datatype capability_call =
    ReadMoment moment_reference | ListMoments | EvaluateLine "utext list" opponent_replies | LearningMaterial

abbreviation lit :: "string \<Rightarrow> utext" where "lit s \<equiv> text_of s"

text \<open>The decimal digits of \<open>format!\<close>.\<close>

fun digits :: "nat \<Rightarrow> utext" where
  "digits n = (if n < 10 then [48 + n] else digits (n div 10) @ [48 + n mod 10])"

declare digits.simps [simp del]

text \<open>The digest of an evaluated line, a SHA-256 of canonical JSON, is a parameter.\<close>

fun host_capability_call_id ::
  "(nat \<Rightarrow> utext list \<Rightarrow> opponent_replies \<Rightarrow> utext) \<Rightarrow> capability_call \<Rightarrow> nat \<Rightarrow> utext" where
  "host_capability_call_id line_identity (ReadMoment (AtPly ply)) open_ply = lit ''call:readMoment:'' @ digits ply"
| "host_capability_call_id line_identity (ReadMoment (NextMoment (Some ImprovementOpportunity))) open_ply =
     lit ''call:readMoment:next:improvementOpportunity''"
| "host_capability_call_id line_identity (ReadMoment (NextMoment None)) open_ply = lit ''call:readMoment:next''"
| "host_capability_call_id line_identity ListMoments open_ply = lit ''call:listMoments''"
| "host_capability_call_id line_identity (EvaluateLine moves replies) open_ply =
     lit ''call:evaluateLine:'' @ line_identity open_ply moves replies"
| "host_capability_call_id line_identity LearningMaterial open_ply = lit ''call:learningMaterial''"

fun call_capability :: "capability_call \<Rightarrow> step_capability" where
  "call_capability (ReadMoment _) = CapReadMoment"
| "call_capability ListMoments = CapListMoments"
| "call_capability (EvaluateLine _ _) = CapEvaluateLine"
| "call_capability LearningMaterial = CapLearningMaterial"

datatype step_label = LookingAtAnotherMoment | CheckingThatLine | Writing

definition progress_label :: "capability_call \<Rightarrow> step_label" where
  "progress_label call = (case call_capability call of
     CapEvaluateLine \<Rightarrow> CheckingThatLine
   | CapReadMoment \<Rightarrow> LookingAtAnotherMoment
   | CapListMoments \<Rightarrow> LookingAtAnotherMoment
   | CapLearningMaterial \<Rightarrow> Writing)"

section \<open>Decoding a step\<close>

datatype host_turn_step =
    CallStep capability_call
  | AnswerStep utext "utext list" "nat option" "show_line option"
  | RefuseStep refusal_reason

text \<open>The flattened step as \<open>serde\<close> decodes it, unused fields defaulted.\<close>

record flat_step =
  fl_kind :: utext
  fl_capability :: utext
  fl_ply :: nat
  fl_next :: bool
  fl_classification :: utext
  fl_moves :: "utext list"
  fl_opponent_replies :: utext
  fl_answer :: utext
  fl_citations :: "utext list"
  fl_focus_moment :: nat
  fl_show_line_kind :: utext
  fl_alternative_move_id :: utext
  fl_refusal_reason :: utext

definition semantic_id_ok :: "utext \<Rightarrow> bool" where
  "semantic_id_ok v \<longleftrightarrow> (case v of
     [] \<Rightarrow> False
   | c # cs \<Rightarrow> alnum_code c \<and> list_all (\<lambda>d. alnum_code d \<or> d \<in> {46, 95, 58, 45}) cs \<and> length v \<le> 128)"

definition alternative_move_id :: "utext \<Rightarrow> utext + string" where
  "alternative_move_id v =
     (if semantic_id_ok v then Inr (ascii_string v)
      else Inl (lit ''AlternativeMoveId must be a 1-128 character opaque ASCII token''))"

definition parse_optional_classification :: "utext \<Rightarrow> utext + reference_classification option" where
  "parse_optional_classification v =
     (if v = [] then Inr None
      else if v = lit ''improvementOpportunity'' then Inr (Some ImprovementOpportunity)
      else Inl (lit ''readMoment classification is not in the closed set: '' @ v))"

definition parse_opponent_replies :: "utext \<Rightarrow> utext + opponent_replies" where
  "parse_opponent_replies v =
     (if v = lit ''engineBest'' then Inr EngineBest
      else if v = lit ''supplied'' then Inr Supplied
      else Inl (lit ''evaluateLine opponentReplies is not in the closed set: '' @ v))"

definition parse_call :: "flat_step \<Rightarrow> utext + capability_call" where
  "parse_call wire =
     (if fl_capability wire = lit ''readMoment'' then
        (if fl_next wire then
           bind_res (parse_optional_classification (fl_classification wire)) (\<lambda>c. Inr (ReadMoment (NextMoment c)))
         else if 0 < fl_ply wire then Inr (ReadMoment (AtPly (fl_ply wire)))
         else Inl (lit ''readMoment requires ply > 0 or next''))
      else if fl_capability wire = lit ''listMoments'' then Inr ListMoments
      else if fl_capability wire = lit ''evaluateLine'' then
        (if fl_moves wire = [] then Inl (lit ''evaluateLine requires at least one move'')
         else bind_res (parse_opponent_replies (fl_opponent_replies wire))
                (\<lambda>replies. Inr (EvaluateLine (fl_moves wire) replies)))
      else if fl_capability wire = lit ''learningMaterial'' then Inr LearningMaterial
      else Inl (lit ''host capability is not in the closed set: '' @ fl_capability wire))"

definition parse_show_line :: "flat_step \<Rightarrow> utext + show_line option" where
  "parse_show_line wire =
     (if fl_show_line_kind wire = [] then Inr None
      else if fl_show_line_kind wire = lit ''engineBest'' then Inr (Some ShowEngineBest)
      else if fl_show_line_kind wire = lit ''playedMoveRefutation'' then Inr (Some ShowPlayedMoveRefutation)
      else if fl_show_line_kind wire = lit ''alternativeMove'' then
        bind_res (alternative_move_id (fl_alternative_move_id wire)) (\<lambda>i. Inr (Some (ShowAlternativeMove i)))
      else Inl (lit ''showLineKind is not in the closed set: '' @ fl_show_line_kind wire))"

definition parse_refusal :: "utext \<Rightarrow> utext + refusal_reason" where
  "parse_refusal v =
     (if v = lit ''notAboutThisReview'' then Inr NotAboutThisReview
      else if v = lit ''notAboutChess'' then Inr NotAboutChess
      else if v = lit ''unsafeRequest'' then Inr UnsafeRequest
      else Inl (lit ''refusalReason is not in the closed set: '' @ v))"

definition parse_host_turn_step :: "flat_step \<Rightarrow> utext + host_turn_step" where
  "parse_host_turn_step wire =
     (if fl_kind wire = lit ''call'' then bind_res (parse_call wire) (\<lambda>call. Inr (CallStep call))
      else if fl_kind wire = lit ''answer'' then
        (if fl_answer wire = [] then Inl (lit ''answer step requires a non-empty answer'')
         else bind_res (parse_show_line wire) (\<lambda>show.
           Inr (AnswerStep (fl_answer wire) (fl_citations wire)
             (if 0 < fl_focus_moment wire then Some (fl_focus_moment wire) else None) show)))
      else if fl_kind wire = lit ''refuse'' then
        bind_res (parse_refusal (fl_refusal_reason wire)) (\<lambda>reason. Inr (RefuseStep reason))
      else Inl (lit ''host turn step kind is not in the closed set: '' @ fl_kind wire))"

fun ok_of :: "'e + 'a \<Rightarrow> 'a option" where
  "ok_of (Inl _) = None"
| "ok_of (Inr x) = Some x"

text \<open>\<open>parse_step\<close>; the JSON decoder is a parameter.\<close>

definition parse_step :: "(utext \<Rightarrow> flat_step option) \<Rightarrow> completion_attempt \<Rightarrow> host_turn_step option" where
  "parse_step decode a = (case ca_raw_content a of
     None \<Rightarrow> None
   | Some raw \<Rightarrow> (case decode raw of None \<Rightarrow> None | Some wire \<Rightarrow> ok_of (parse_host_turn_step wire)))"

fun step_capability_of :: "host_turn_step \<Rightarrow> step_capability option" where
  "step_capability_of (CallStep call) = Some (call_capability call)"
| "step_capability_of _ = None"

section \<open>The Player's message\<close>

definition MAX_PLAYER_MESSAGE_BYTES :: nat where "MAX_PLAYER_MESSAGE_BYTES = 4096"

definition utf8_bytes :: "nat \<Rightarrow> nat" where
  "utf8_bytes c = (if c < 128 then 1 else if c < 2048 then 2 else if c < 65536 then 3 else 4)"

definition disallowed_control_character :: "nat \<Rightarrow> bool" where
  "disallowed_control_character c \<longleftrightarrow> (c < 32 \<or> 127 \<le> c \<and> c \<le> 159) \<and> c \<noteq> 10 \<and> c \<noteq> 13 \<and> c \<noteq> 9"

definition gate_player_message :: "utext \<Rightarrow> unit + unit" where
  "gate_player_message message =
     (if trim message = [] \<or> sum_list (map utf8_bytes message) > MAX_PLAYER_MESSAGE_BYTES
         \<or> list_ex disallowed_control_character message
      then Inl () else Inr ())"

section \<open>Results of the capabilities\<close>

datatype capability_evidence =
    MomentEvidence nat | MomentListEvidence "nat list" | EvaluatedLineEvidence "string list" | LearningMaterialEvidence nat

record capability_dispatch =
  cd_call_id :: utext
  cd_evidence :: capability_evidence
  cd_projection :: utext
  cd_literals :: "utext list"

record recorded_dispatch =
  rd_call_id :: utext
  rd_projection :: utext
  rd_literals :: "utext list"

definition push_new :: "'a \<Rightarrow> 'a list \<Rightarrow> 'a list" where
  "push_new x xs = (if x \<in> set xs then xs else xs @ [x])"

fun collect_refs :: "capability_evidence \<Rightarrow> nat list \<Rightarrow> string list \<Rightarrow> nat list \<times> string list" where
  "collect_refs (MomentEvidence ply) plies ids = (push_new ply plies, ids)"
| "collect_refs (MomentListEvidence moments) plies ids = (fold push_new moments plies, ids)"
| "collect_refs (EvaluatedLineEvidence commits) plies ids = (plies, fold push_new commits ids)"
| "collect_refs (LearningMaterialEvidence ply) plies ids = (push_new ply plies, ids)"

definition failed_dispatch ::
  "(nat \<Rightarrow> utext list \<Rightarrow> opponent_replies \<Rightarrow> utext) \<Rightarrow> (utext \<Rightarrow> utext) \<Rightarrow> nat \<Rightarrow> capability_call \<Rightarrow> utext
     \<Rightarrow> recorded_dispatch" where
  "failed_dispatch line_identity error_json open_ply call message =
     \<lparr>rd_call_id = host_capability_call_id line_identity call open_ply, rd_projection = error_json message,
      rd_literals = []\<rparr>"

definition cited_literals :: "recorded_dispatch list \<Rightarrow> utext \<Rightarrow> utext list" where
  "cited_literals returned citation = (case find (\<lambda>d. rd_call_id d = citation) returned of
     Some d \<Rightarrow> rd_literals d | None \<Rightarrow> [])"

definition union_cited :: "grounding \<Rightarrow> recorded_dispatch list \<Rightarrow> utext list \<Rightarrow> grounding" where
  "union_cited preloaded returned citations =
     fold (\<lambda>c. allow_all (cited_literals returned c)) citations (fold allow (allowed preloaded) grounding_empty)"

section \<open>Text blocks of the prompt\<close>

definition union_prompt_literals :: "utext list \<Rightarrow> recorded_dispatch list \<Rightarrow> utext list" where
  "union_prompt_literals from_open returned =
     fold (\<lambda>d literals. fold push_new (rd_literals d) literals) returned from_open"

definition turn_context_block :: "recorded_dispatch list \<Rightarrow> utext option \<Rightarrow> utext" where
  "turn_context_block returned corrective =
     (if returned \<noteq> [] then
        lit ''CAPABILITY_RESULTS:'' @ [10] @
        concat (map (\<lambda>d. rd_call_id d @ lit '': '' @ rd_projection d @ [10]) returned) @ [10]
      else [])
     @ (case corrective of
          None \<Rightarrow> []
        | Some reason \<Rightarrow> lit ''GROUNDING_REJECTION:'' @ [10] @ reason @ [10] @
            lit ''Answer again using only the allowed chess literals.'' @ [10, 10])"

text \<open>The last position of a text in another, as \<open>rfind\<close> gives it.\<close>

fun rfind :: "utext \<Rightarrow> utext \<Rightarrow> nat option" where
  "rfind needle [] = (if needle = [] then Some 0 else None)"
| "rfind needle (c # cs) = (case rfind needle cs of
     Some i \<Rightarrow> Some (i + 1)
   | None \<Rightarrow> if take (length needle) (c # cs) = needle then Some 0 else None)"

definition player_message_marker :: utext where "player_message_marker = lit ''PLAYER_MESSAGE:''"

definition insert_before_player_message :: "utext \<Rightarrow> utext \<Rightarrow> utext" where
  "insert_before_player_message user block =
     (if block = [] then user
      else (case rfind player_message_marker user of
          Some index \<Rightarrow> take index user @ block @ drop index user
        | None \<Rightarrow> user @ block))"

end
