(* ===== verification/LedgerStore.thy ===== *)
theory LedgerStore
  imports Ledger
begin

text \<open>
  The Firestore ledger (\<open>language_layer_ledger/firestore.rs\<close>), the contract both ledgers share, and
  what follows from it: the counters are the sums of the bills of the operational records. The hashes
  of the document paths are parameters.
\<close>

section \<open>The Firestore ledger\<close>

record record_doc =
  doc_request_id :: string
  doc_player_id :: string
  doc_settled_at :: int
  doc_latency_ms :: nat
  doc_cost_micros :: int
  doc_prompt_tokens :: "nat option"
  doc_completion_tokens :: "nat option"
  doc_budget_decision :: string
  doc_denial_reason :: "string option"
  doc_error_class :: "string option"
  doc_pin_verification :: string
  doc_pin_cause :: "string option"
  doc_fingerprint_digest :: string
  doc_capture_outcome :: "string option"
  doc_provider_cooldown_ms :: "nat option"
  doc_steps :: "step_observation list"

fun pin_verdict_str :: "pin_verdict \<Rightarrow> string" where
  "pin_verdict_str PinPassed = ''passed''"
| "pin_verdict_str PinFailed = ''failed''"
| "pin_verdict_str PinUnverified = ''unverified''"
| "pin_verdict_str PinNotApplicable = ''notApplicable''"

fun capture_outcome_str :: "capture_outcome \<Rightarrow> string" where
  "capture_outcome_str Published = ''published''"
| "capture_outcome_str CaptureRejected = ''rejected''"
| "capture_outcome_str CaptureFailed = ''failed''"
| "capture_outcome_str BudgetRefused = ''budgetRefused''"
| "capture_outcome_str CaptureProviderCooldown = ''providerCooldown''"

definition as_millis :: "nat \<Rightarrow> nat" where
  "as_millis d = min (d div 1000000) u64_max"

definition doc_from_record :: "op_record \<Rightarrow> record_doc" where
  "doc_from_record r =
     \<lparr>doc_request_id = or_request_id r, doc_player_id = or_player_id r, doc_settled_at = or_settled_at r,
      doc_latency_ms = as_millis (or_latency r), doc_cost_micros = or_cost_micros r,
      doc_prompt_tokens = or_prompt_tokens r, doc_completion_tokens = or_completion_tokens r,
      doc_budget_decision = budget_decision_str (or_budget_decision r),
      doc_denial_reason = map_option denial_reason_str (or_denial_reason r),
      doc_error_class = map_option attempt_error_class_str (or_error_class r),
      doc_pin_verification = pin_verdict_str (or_pin_verification r),
      doc_pin_cause = map_option pin_cause_str (or_pin_cause r),
      doc_fingerprint_digest = or_fingerprint_digest r,
      doc_capture_outcome = map_option capture_outcome_str (or_capture_outcome r),
      doc_provider_cooldown_ms = map_option as_millis (or_provider_cooldown r), doc_steps = or_steps r\<rparr>"

text \<open>The documents by the variable segments of their paths: the owner and the day, the month, the owner
  and the hash of the request id.\<close>

record fs_ledger =
  fs_days :: "(string \<times> string, int) btree_map"
  fs_months :: "(string, string \<times> int) btree_map"
  fs_records :: "(string \<times> string, record_doc) btree_map"

definition fs_new :: fs_ledger where
  "fs_new = \<lparr>fs_days = [], fs_months = [], fs_records = []\<rparr>"

record path_hashes =
  owner_of :: "string \<Rightarrow> string"
  request_of :: "string \<Rightarrow> string"

definition record_path :: "path_hashes \<Rightarrow> op_record \<Rightarrow> string \<times> string" where
  "record_path h r = (owner_of h (or_player_id r), request_of h (or_request_id r))"

definition day_path :: "path_hashes \<Rightarrow> string \<Rightarrow> string \<Rightarrow> string \<times> string" where
  "day_path h player day = (owner_of h player, day)"

text \<open>The writes of one settlement, committed together.\<close>

definition fs_apply :: "calendar \<Rightarrow> path_hashes \<Rightarrow> op_record \<Rightarrow> fs_ledger \<Rightarrow> fs_ledger" where
  "fs_apply cal h r f =
     (let f1 = f\<lparr>fs_records := bt_insert (record_path h r) (doc_from_record r) (fs_records f)\<rparr>
      in if billed r then
           (let path = day_path h (or_player_id r) (day_key cal (or_settled_at r));
                player = or_zero (bt_get (fs_days f) path);
                month = month_key cal (or_settled_at r);
                (global_month, global) = (case bt_get (fs_months f) month of None \<Rightarrow> (month, 0) | Some g \<Rightarrow> g)
            in f1\<lparr>fs_days := bt_insert path (isat_add player (or_cost_micros r)) (fs_days f),
                  fs_months := bt_insert month (global_month, isat_add global (or_cost_micros r)) (fs_months f)\<rparr>)
         else f1)"

definition settle_once :: "calendar \<Rightarrow> path_hashes \<Rightarrow> op_record \<Rightarrow> fs_ledger \<Rightarrow> fs_ledger" where
  "settle_once cal h r f = (if bt_get (fs_records f) (record_path h r) \<noteq> None then f else fs_apply cal h r f)"

definition LEDGER_TRANSACTION_ATTEMPTS :: nat where "LEDGER_TRANSACTION_ATTEMPTS = 4"

text \<open>How the calls of an attempt go: a read or the rollback fails, or the commit reports success, a conflict,
  or a failure that took effect or did not.\<close>

datatype commit_report = CallFails | CommitOk | CommitConflict | CommitFails bool

datatype ledger_error = LedgerUnavailable

fun mutate_settle ::
  "commit_report list \<Rightarrow> calendar \<Rightarrow> path_hashes \<Rightarrow> op_record \<Rightarrow> fs_ledger \<Rightarrow> (ledger_error + unit) \<times> fs_ledger" where
  "mutate_settle [] cal h r f = (Inl LedgerUnavailable, f)"
| "mutate_settle (c # cs) cal h r f =
     (if c = CallFails then (Inl LedgerUnavailable, f)
      else if bt_get (fs_records f) (record_path h r) \<noteq> None then (Inr (), f)
      else (case c of
          CallFails \<Rightarrow> (Inl LedgerUnavailable, f)
        | CommitOk \<Rightarrow> (Inr (), fs_apply cal h r f)
        | CommitConflict \<Rightarrow> if cs \<noteq> [] then mutate_settle cs cal h r f else (Inl LedgerUnavailable, f)
        | CommitFails took_effect \<Rightarrow>
            (Inl LedgerUnavailable, if took_effect then fs_apply cal h r f else f)))"

text \<open>\<open>settle\<close>: the attempts of the transaction, with the report of the commit of each.\<close>

definition fs_settle ::
  "(nat \<Rightarrow> commit_report) \<Rightarrow> calendar \<Rightarrow> path_hashes \<Rightarrow> op_record \<Rightarrow> fs_ledger \<Rightarrow> (ledger_error + unit) \<times> fs_ledger" where
  "fs_settle report = mutate_settle (map report [0..<LEDGER_TRANSACTION_ATTEMPTS])"

definition fs_player_rolling_30_day :: "calendar \<Rightarrow> path_hashes \<Rightarrow> string \<Rightarrow> int \<Rightarrow> fs_ledger \<Rightarrow> int" where
  "fs_player_rolling_30_day cal h player as_of f =
     sum_days cal (\<lambda>day. bt_get (fs_days f) (day_path h player day)) (day_number as_of) [0..<30] 0"

definition fs_global_calendar_month :: "calendar \<Rightarrow> int \<Rightarrow> fs_ledger \<Rightarrow> int" where
  "fs_global_calendar_month cal as_of f =
     (case bt_get (fs_months f) (month_key cal as_of) of None \<Rightarrow> 0 | Some (_, cost) \<Rightarrow> cost)"

section \<open>The contract of a ledger\<close>

definition record_key :: "op_record \<Rightarrow> string \<times> string" where
  "record_key r = (or_player_id r, or_request_id r)"

locale spend_ledger =
  fixes cal :: calendar and start :: 'l and settle_in :: "op_record \<Rightarrow> 'l \<Rightarrow> 'l"
    and day_spend :: "'l \<Rightarrow> string \<Rightarrow> string \<Rightarrow> int" and month_spend :: "'l \<Rightarrow> string \<Rightarrow> int"
    and known :: "'l \<Rightarrow> (string \<times> string) set"
  assumes start_zero: "day_spend start p d = 0" "month_spend start m = 0" "known start = {}"
    and settle_known: "known (settle_in r l) \<subseteq> insert (record_key r) (known l)"
    and settle_day: "record_key r \<notin> known l \<Longrightarrow> day_spend (settle_in r l) p d =
      (if billed r \<and> or_player_id r = p \<and> day_key cal (or_settled_at r) = d
       then isat_add (day_spend l p d) (or_cost_micros r) else day_spend l p d)"
    and settle_month: "record_key r \<notin> known l \<Longrightarrow> month_spend (settle_in r l) m =
      (if billed r \<and> month_key cal (or_settled_at r) = m
       then isat_add (month_spend l m) (or_cost_micros r) else month_spend l m)"
begin

definition run :: "op_record list \<Rightarrow> 'l" where
  "run rs = fold settle_in rs start"

lemma run_snoc: "run (rs @ [r]) = settle_in r (run rs)"
  by (simp add: run_def)

lemma run_known: "known (run rs) \<subseteq> record_key ` set rs"
proof (induction rs rule: rev_induct)
  case Nil
  then show ?case by (simp add: run_def start_zero)
next
  case (snoc r rs)
  then show ?case using settle_known [of r "run rs"] by (auto simp: run_snoc)
qed

end

text \<open>The bills of a list of records that satisfy a condition.\<close>

definition bills :: "(op_record \<Rightarrow> bool) \<Rightarrow> op_record list \<Rightarrow> int" where
  "bills Q rs = sum_list (map or_cost_micros (filter (\<lambda>r. billed r \<and> Q r) rs))"

lemma bills_simps [simp]:
  "bills Q [] = 0"
  "bills Q (r # rs) = (if billed r \<and> Q r then or_cost_micros r else 0) + bills Q rs"
  "bills Q (rs @ [r]) = bills Q rs + (if billed r \<and> Q r then or_cost_micros r else 0)"
  by (simp_all add: bills_def)

lemma bills_nonneg: "0 \<le> bills Q rs"
  by (induction rs) (auto simp: billed_def)

lemma bills_mono: "bills Q rs \<le> bills (\<lambda>_. True) rs"
  by (induction rs) (auto simp: billed_def)

context spend_ledger
begin

lemma run_day:
  assumes "distinct (map record_key rs)" and "bills (\<lambda>_. True) rs \<le> i64_max"
  shows "day_spend (run rs) p d = bills (\<lambda>r. or_player_id r = p \<and> day_key cal (or_settled_at r) = d) rs"
  using assms
proof (induction rs rule: rev_induct)
  case Nil
  then show ?case by (simp add: run_def start_zero)
next
  case (snoc r rs)
  let ?Q = "\<lambda>r. or_player_id r = p \<and> day_key cal (or_settled_at r) = d"
  have k: "record_key r \<notin> known (run rs)" using run_known [of rs] snoc.prems(1) by auto
  have le: "bills (\<lambda>_. True) rs \<le> i64_max" using snoc.prems(2) by (auto simp: billed_def split: if_splits)
  have ih: "day_spend (run rs) p d = bills ?Q rs" using snoc.IH snoc.prems(1) le by simp
  have "isat_add (bills ?Q rs) (or_cost_micros r) = bills ?Q rs + or_cost_micros r" if "billed r"
  proof (rule isat_add_exact)
    show "i64_min \<le> bills ?Q rs + or_cost_micros r"
      using bills_nonneg [of ?Q rs] that by (simp add: billed_def i64_min_def)
    show "bills ?Q rs + or_cost_micros r \<le> i64_max"
      using bills_mono [of ?Q rs] snoc.prems(2) that by simp
  qed
  then show ?case using ih settle_day [OF k] by (simp add: run_snoc)
qed

lemma run_month:
  assumes "distinct (map record_key rs)" and "bills (\<lambda>_. True) rs \<le> i64_max"
  shows "month_spend (run rs) m = bills (\<lambda>r. month_key cal (or_settled_at r) = m) rs"
  using assms
proof (induction rs rule: rev_induct)
  case Nil
  then show ?case by (simp add: run_def start_zero)
next
  case (snoc r rs)
  let ?Q = "\<lambda>r. month_key cal (or_settled_at r) = m"
  have k: "record_key r \<notin> known (run rs)" using run_known [of rs] snoc.prems(1) by auto
  have le: "bills (\<lambda>_. True) rs \<le> i64_max" using snoc.prems(2) by (auto simp: billed_def split: if_splits)
  have ih: "month_spend (run rs) m = bills ?Q rs" using snoc.IH snoc.prems(1) le by simp
  have "isat_add (bills ?Q rs) (or_cost_micros r) = bills ?Q rs + or_cost_micros r" if "billed r"
  proof (rule isat_add_exact)
    show "i64_min \<le> bills ?Q rs + or_cost_micros r"
      using bills_nonneg [of ?Q rs] that by (simp add: billed_def i64_min_def)
    show "bills ?Q rs + or_cost_micros r \<le> i64_max"
      using bills_mono [of ?Q rs] snoc.prems(2) that by simp
  qed
  then show ?case using ih settle_month [OF k] by (simp add: run_snoc)
qed

end

section \<open>Both ledgers honour it\<close>

definition memory_day :: "memory_ledger \<Rightarrow> string \<Rightarrow> string \<Rightarrow> int" where
  "memory_day l p d = (case bt_get (player_days l) p of None \<Rightarrow> 0 | Some days \<Rightarrow> or_zero (bt_get days d))"

definition memory_month :: "memory_ledger \<Rightarrow> string \<Rightarrow> int" where
  "memory_month l m = or_zero (bt_get (global_months l) m)"

interpretation memory: spend_ledger cal memory_new "settle cal" memory_day memory_month "\<lambda>_. {}" for cal
proof
  fix r l p d m
  show "memory_day (settle cal r l) p d =
      (if billed r \<and> or_player_id r = p \<and> day_key cal (or_settled_at r) = d
       then isat_add (memory_day l p d) (or_cost_micros r) else memory_day l p d)"
    by (auto simp: settle_def memory_day_def Let_def bt_get_insert or_zero_def split: option.splits)
  show "memory_month (settle cal r l) m =
      (if billed r \<and> month_key cal (or_settled_at r) = m
       then isat_add (memory_month l m) (or_cost_micros r) else memory_month l m)"
    by (auto simp: settle_def memory_month_def Let_def bt_get_insert or_zero_def split: option.splits)
qed (simp_all add: memory_day_def memory_month_def memory_new_def or_zero_def)

definition fs_day :: "path_hashes \<Rightarrow> fs_ledger \<Rightarrow> string \<Rightarrow> string \<Rightarrow> int" where
  "fs_day h f p d = or_zero (bt_get (fs_days f) (day_path h p d))"

definition fs_month :: "fs_ledger \<Rightarrow> string \<Rightarrow> int" where
  "fs_month f m = (case bt_get (fs_months f) m of None \<Rightarrow> 0 | Some (_, cost) \<Rightarrow> cost)"

definition fs_known :: "path_hashes \<Rightarrow> fs_ledger \<Rightarrow> (string \<times> string) set" where
  "fs_known h f = {(p, i). bt_get (fs_records f) (owner_of h p, request_of h i) \<noteq> None}"

definition hashes_ok :: "path_hashes \<Rightarrow> bool" where
  "hashes_ok h \<longleftrightarrow> inj (owner_of h) \<and> inj (request_of h)"

lemma firestore_ledger:
  assumes "hashes_ok h"
  shows "spend_ledger cal fs_new (settle_once cal h) (fs_day h) fs_month (fs_known h)"
proof
  have inj: "owner_of h p = owner_of h q \<longleftrightarrow> p = q" "request_of h i = request_of h j \<longleftrightarrow> i = j" for p q i j
    using assms by (auto simp: hashes_ok_def dest: injD)
  fix r f p d m
  show "fs_known h (settle_once cal h r f) \<subseteq> insert (record_key r) (fs_known h f)"
    by (auto simp: settle_once_def fs_apply_def fs_known_def record_key_def record_path_def Let_def
        bt_get_insert inj split: option.splits if_splits prod.splits)
  assume "record_key r \<notin> fs_known h f"
  then have new: "settle_once cal h r f = fs_apply cal h r f"
    by (simp add: settle_once_def fs_known_def record_key_def record_path_def)
  show "fs_day h (settle_once cal h r f) p d =
      (if billed r \<and> or_player_id r = p \<and> day_key cal (or_settled_at r) = d
       then isat_add (fs_day h f p d) (or_cost_micros r) else fs_day h f p d)"
    unfolding new
    by (auto simp: fs_apply_def fs_day_def day_path_def Let_def bt_get_insert inj or_zero_def
        split: option.splits prod.splits)
  show "fs_month (settle_once cal h r f) m =
      (if billed r \<and> month_key cal (or_settled_at r) = m
       then isat_add (fs_month f m) (or_cost_micros r) else fs_month f m)"
    unfolding new
    by (auto simp: fs_apply_def fs_month_def Let_def bt_get_insert split: option.splits prod.splits)
qed (simp_all add: fs_new_def fs_day_def fs_month_def fs_known_def or_zero_def)

end
