(* ===== verification/LedgerAttempts.thy ===== *)
theory LedgerAttempts
  imports LedgerStore
begin

text \<open>
  The life of a hosted attempt (\<open>admit\<close>, \<open>begin_hosted_attempt\<close>, \<open>finish_hosted_attempt\<close> and
  \<open>attempt_hosted\<close> of \<open>language_layer_ledger.rs\<close>). The functions await the ledger, the provider slot,
  the provider and the pin check, so an attempt is a phase for each await, and \<open>attempt_resume\<close> is
  the code that runs from one await to the next. The attempts of one Review Session run interleaved over
  its spend, the ledger and the provider concurrency.
\<close>

section \<open>Shared state\<close>

record shared =
  sh_spend :: spend
  sh_ledger :: memory_ledger
  sh_cooldown :: cooldown
  sh_free :: nat
  sh_now :: nat
  sh_tripped :: nat

definition shared_new :: "admission_config \<Rightarrow> shared" where
  "shared_new config =
     \<lparr>sh_spend = spend_new, sh_ledger = memory_new, sh_cooldown = cooldown_new,
      sh_free = max_concurrent_provider_calls config, sh_now = 0, sh_tripped = 0\<rparr>"

definition over :: "int \<Rightarrow> int \<Rightarrow> int \<Rightarrow> bool" where
  "over spent micros cap \<longleftrightarrow> isat_add spent micros > cap"

datatype hosted_outcome =
    OutSettled op_record "completion_attempt option"
  | OutDenied denial_reason hosted_fallback op_record

datatype attempt_phase =
    Asked
  | PlayerRead
  | GlobalRead
  | SlotWait nat
  | InProvider
  | OpenAttempt completion_attempt "nat option"
  | DenialSettling denial_reason op_record
  | CancelSettling op_record
  | SpendSettling op_record completion_attempt
  | GlobalCheck op_record completion_attempt
  | Ended "ledger_error + hosted_outcome"

text \<open>What an await returns with.\<close>

datatype await_result =
    Begins | LedgerAnswers | LedgerFails | SlotGranted | SlotTimesOut
  | ProviderReplies completion_attempt | PinJudged pin_judgement bool

section \<open>One attempt\<close>

definition deny :: "string \<Rightarrow> attempt_context \<Rightarrow> denial_reason \<Rightarrow> shared \<Rightarrow> attempt_phase" where
  "deny request_id cx reason sh =
     DenialSettling reason (denied_record request_id cx reason (cd_honoured (sh_cooldown sh)))"

fun provider_outcome ::
  "admission_config \<Rightarrow> nat \<Rightarrow> completion_outcome \<Rightarrow> cooldown \<Rightarrow> nat option \<times> cooldown" where
  "provider_outcome config now (OutcomeRateLimit retry_after source) c =
     (let (wait, c') = honor_rate_limit config now retry_after c in (Some wait, c'))"
| "provider_outcome config now _ c = (None, note_non_rate_limited now c)"

definition trip :: "shared \<Rightarrow> shared" where
  "trip sh = sh\<lparr>sh_tripped := sh_tripped sh + 1\<rparr>"

text \<open>An await on the ledger: the \<open>?\<close> operator ends the attempt with the error.\<close>

definition ledger_await ::
  "await_result \<Rightarrow> shared \<Rightarrow> attempt_phase \<times> shared \<Rightarrow> (attempt_phase \<times> shared) option" where
  "ledger_await x sh answered =
     (case x of LedgerFails \<Rightarrow> Some (Ended (Inl LedgerUnavailable), sh) | LedgerAnswers \<Rightarrow> Some answered | _ \<Rightarrow> None)"

text \<open>\<open>admit\<close> from its start to the first await, and after each read of the ledger.\<close>

definition session_checked :: "string \<Rightarrow> attempt_context \<Rightarrow> shared \<Rightarrow> attempt_phase" where
  "session_checked rid cx sh =
     (if over (spent_micros (sh_spend sh)) OPERATION_WORST_CASE_MICROS REVIEW_SESSION_CEILING_MICROS
      then deny rid cx ReviewSessionCeiling sh else PlayerRead)"

definition player_checked :: "calendar \<Rightarrow> string \<Rightarrow> attempt_context \<Rightarrow> shared \<Rightarrow> attempt_phase" where
  "player_checked cal rid cx sh =
     (if over (player_rolling_30_day cal (cx_player_id cx) (cx_as_of cx) (sh_ledger sh))
           OPERATION_WORST_CASE_MICROS PLAYER_CEILING_MICROS
      then deny rid cx PlayerCeiling sh else GlobalRead)"

definition global_checked ::
  "admission_config \<Rightarrow> calendar \<Rightarrow> string \<Rightarrow> attempt_context \<Rightarrow> shared \<Rightarrow> attempt_phase" where
  "global_checked config cal rid cx sh =
     (if over (global_calendar_month cal (cx_as_of cx) (sh_ledger sh))
           OPERATION_WORST_CASE_MICROS GLOBAL_CEILING_MICROS
      then deny rid cx GlobalCeiling sh
      else if cooldown_remaining (sh_now sh) (sh_cooldown sh) \<noteq> None then deny rid cx ProviderCooldown sh
      else SlotWait (sh_now sh + slot_wait config (cx_remaining_deadline cx)))"

fun attempt_resume ::
  "admission_config \<Rightarrow> calendar \<Rightarrow> string \<Rightarrow> attempt_context \<Rightarrow> await_result \<Rightarrow> attempt_phase \<Rightarrow> shared
     \<Rightarrow> (attempt_phase \<times> shared) option" where
  "attempt_resume config cal rid cx x Asked sh =
     (if x = Begins then Some (session_checked rid cx sh, sh) else None)"
| "attempt_resume config cal rid cx x PlayerRead sh =
     ledger_await x sh (player_checked cal rid cx sh, sh)"
| "attempt_resume config cal rid cx x GlobalRead sh =
     ledger_await x sh (global_checked config cal rid cx sh, sh)"
| "attempt_resume config cal rid cx x (SlotWait deadline) sh =
     (case x of
        SlotTimesOut \<Rightarrow>
          if deadline \<le> sh_now sh then Some (deny rid cx ConcurrencyUnavailable sh, sh) else None
      | SlotGranted \<Rightarrow>
          if sh_free sh = 0 then None
          else if cx_cancelled cx then
            Some (CancelSettling (cancelled_without_provider rid cx),
                  sh\<lparr>sh_cooldown := note_non_rate_limited (sh_now sh) (sh_cooldown sh)\<rparr>)
          else Some (InProvider, sh\<lparr>sh_free := sh_free sh - 1\<rparr>)
      | _ \<Rightarrow> None)"
| "attempt_resume config cal rid cx x InProvider sh =
     (case x of
        ProviderReplies a \<Rightarrow>
          (let (wait, c) = provider_outcome config (sh_now sh) (ca_outcome a) (sh_cooldown sh)
           in Some (OpenAttempt a wait, sh\<lparr>sh_cooldown := c, sh_free := sh_free sh + 1\<rparr>))
      | _ \<Rightarrow> None)"
| "attempt_resume config cal rid cx x (OpenAttempt a wait) sh =
     (case x of
        PinJudged pin in_flight_cancelled \<Rightarrow>
          (let cost = cost_micros (ca_rounded_micros a);
               cx' = cx\<lparr>cx_pin := pin, cx_in_flight_cancelled := in_flight_cancelled\<rparr>
           in Some (SpendSettling (admitted_record rid cx' a cost wait) a,
                    if cost > 0 then sh\<lparr>sh_spend := record_spend cost (sh_spend sh)\<rparr> else sh))
      | _ \<Rightarrow> None)"
| "attempt_resume config cal rid cx x (DenialSettling reason r) sh =
     ledger_await x sh
       (let sh' = sh\<lparr>sh_ledger := settle cal r (sh_ledger sh)\<rparr>
        in (Ended (Inr (OutDenied reason (task_fallback (cx_task cx)) r)),
            if reason = GlobalCeiling then trip sh' else sh'))"
| "attempt_resume config cal rid cx x (CancelSettling r) sh =
     ledger_await x sh
       (Ended (Inr (OutSettled r None)), sh\<lparr>sh_ledger := settle cal r (sh_ledger sh)\<rparr>)"
| "attempt_resume config cal rid cx x (SpendSettling r a) sh =
     ledger_await x sh (GlobalCheck r a, sh\<lparr>sh_ledger := settle cal r (sh_ledger sh)\<rparr>)"
| "attempt_resume config cal rid cx x (GlobalCheck r a) sh =
     ledger_await x sh
       (Ended (Inr (OutSettled r (Some a))),
        if global_calendar_month cal (cx_as_of cx) (sh_ledger sh) \<ge> GLOBAL_CEILING_MICROS then trip sh else sh)"
| "attempt_resume config cal rid cx x (Ended outcome) sh = None"

section \<open>Interleaved attempts\<close>

record attempt =
  at_request_id :: string
  at_context :: attempt_context
  at_phase :: attempt_phase

record ll_world =
  w_shared :: shared
  w_attempts :: "attempt list"

definition world_new :: "admission_config \<Rightarrow> ll_world" where
  "world_new config = \<lparr>w_shared = shared_new config, w_attempts = []\<rparr>"

datatype ll_event = Arrives string attempt_context | Resumes nat await_result | TimePasses nat

fun ll_exec :: "admission_config \<Rightarrow> calendar \<Rightarrow> ll_event \<Rightarrow> ll_world \<Rightarrow> ll_world option" where
  "ll_exec config cal (Arrives rid cx) w =
     Some (w\<lparr>w_attempts := w_attempts w @ [\<lparr>at_request_id = rid, at_context = cx, at_phase = Asked\<rparr>]\<rparr>)"
| "ll_exec config cal (Resumes i x) w =
     (if i < length (w_attempts w) then
        (let a = w_attempts w ! i
         in case attempt_resume config cal (at_request_id a) (at_context a) x (at_phase a) (w_shared w) of
              None \<Rightarrow> None
            | Some (phase', sh') \<Rightarrow>
                Some (w\<lparr>w_shared := sh', w_attempts := (w_attempts w)[i := a\<lparr>at_phase := phase'\<rparr>]\<rparr>))
      else None)"
| "ll_exec config cal (TimePasses d) w =
     Some (w\<lparr>w_shared := (w_shared w)\<lparr>sh_now := sh_now (w_shared w) + d\<rparr>\<rparr>)"

fun ll_run :: "admission_config \<Rightarrow> calendar \<Rightarrow> ll_event list \<Rightarrow> ll_world \<Rightarrow> ll_world option" where
  "ll_run config cal [] w = Some w"
| "ll_run config cal (e # es) w =
     (case ll_exec config cal e w of None \<Rightarrow> None | Some w' \<Rightarrow> ll_run config cal es w')"

text \<open>The worlds reached by events that satisfy a condition on the event and the world it leads to.\<close>

inductive ll_reach ::
  "admission_config \<Rightarrow> calendar \<Rightarrow> (ll_event \<Rightarrow> ll_world \<Rightarrow> bool) \<Rightarrow> ll_world \<Rightarrow> bool"
  for config cal good where
  ll_start: "ll_reach config cal good (world_new config)"
| ll_next: "ll_reach config cal good w \<Longrightarrow> ll_exec config cal e w = Some w' \<Longrightarrow> good e w'
    \<Longrightarrow> ll_reach config cal good w'"

definition any_event :: "ll_event \<Rightarrow> ll_world \<Rightarrow> bool" where
  "any_event e w \<longleftrightarrow> True"

lemma ll_run_reach:
  "ll_reach config cal any_event w \<Longrightarrow> ll_run config cal es w = Some w' \<Longrightarrow> ll_reach config cal any_event w'"
proof (induction es arbitrary: w)
  case (Cons e es)
  then show ?case by (auto split: option.splits simp: any_event_def intro: ll_next)
qed simp

inductive_cases ll_reachE: "ll_reach config cal good w"

section \<open>Invariants of the attempts\<close>

text \<open>The cases of a resumption, so that a proof looks at each phase once.\<close>

lemmas resume_defs = ledger_await_def session_checked_def player_checked_def global_checked_def deny_def Let_def
lemmas resume_splits = await_result.splits option.splits prod.splits if_splits

lemma ll_exec_cases:
  assumes "ll_exec config cal e w = Some w'"
  obtains (arrives) rid cx where "e = Arrives rid cx" and "w_shared w' = w_shared w"
      and "w_attempts w' = w_attempts w @ [\<lparr>at_request_id = rid, at_context = cx, at_phase = Asked\<rparr>]"
  | (resumes) i x a ph where "e = Resumes i x" and "i < length (w_attempts w)" and "a = w_attempts w ! i"
      and "attempt_resume config cal (at_request_id a) (at_context a) x (at_phase a) (w_shared w)
           = Some (ph, w_shared w')"
      and "w_attempts w' = (w_attempts w)[i := a\<lparr>at_phase := ph\<rparr>]"
  | (passes) d where "e = TimePasses d" and "w_attempts w' = w_attempts w"
      and "w_shared w' = (w_shared w)\<lparr>sh_now := sh_now (w_shared w) + d\<rparr>"
proof (cases e)
  case (Arrives rid cx)
  then show thesis using assms arrives by auto
next
  case (TimePasses d)
  then show thesis using assms passes by auto
next
  case (Resumes i x)
  then show thesis using assms resumes [OF Resumes _ refl]
    by (auto simp: Let_def split: if_splits option.splits prod.splits)
qed

text \<open>A fact about each attempt that its own steps establish and the steps of others leave.\<close>

locale attempt_fact =
  fixes config :: admission_config and cal :: calendar and good :: "ll_event \<Rightarrow> ll_world \<Rightarrow> bool"
    and fact :: "string \<Rightarrow> attempt_context \<Rightarrow> attempt_phase \<Rightarrow> shared \<Rightarrow> bool"
  assumes fact_asked: "fact rid cx Asked sh"
    and fact_own: "fact rid cx ph sh \<Longrightarrow> good (Resumes i x) w
      \<Longrightarrow> attempt_resume config cal rid cx x ph sh = Some (ph', sh') \<Longrightarrow> fact rid cx ph' sh'"
    and fact_other: "fact rid cx ph sh \<Longrightarrow> attempt_resume config cal rid' cx' x ph' sh = Some (ph'', sh')
      \<Longrightarrow> fact rid cx ph sh'"
    and fact_time: "fact rid cx ph sh \<Longrightarrow> fact rid cx ph (sh\<lparr>sh_now := sh_now sh + d\<rparr>)"
begin

lemma fact_reach:
  assumes "ll_reach config cal good w"
  shows "\<forall>a \<in> set (w_attempts w). fact (at_request_id a) (at_context a) (at_phase a) (w_shared w)"
  using assms
proof induction
  case ll_start
  then show ?case by (simp add: world_new_def)
next
  case (ll_next w e w')
  from ll_next.hyps(2) show ?case
  proof (cases rule: ll_exec_cases)
    case (arrives rid cx)
    then show ?thesis using ll_next.IH fact_asked by auto
  next
    case (passes d)
    then show ?thesis using ll_next.IH fact_time by auto
  next
    case (resumes i x a ph)
    have own: "fact (at_request_id a) (at_context a) ph (w_shared w')"
      using fact_own [OF _ _ resumes(4)] ll_next.IH ll_next.hyps(3) resumes(1-3) nth_mem by blast
    show ?thesis
    proof
      fix b
      assume "b \<in> set (w_attempts w')"
      then consider "b = a\<lparr>at_phase := ph\<rparr>" | "b \<in> set (w_attempts w)"
        using set_update_subset_insert resumes(5) by fastforce
      then show "fact (at_request_id b) (at_context b) (at_phase b) (w_shared w')"
      proof cases
        case 1
        then show ?thesis using own by simp
      next
        case 2
        then show ?thesis using fact_other [OF _ resumes(4)] ll_next.IH by blast
      qed
    qed
  qed
qed

end

text \<open>A quantity of the shared state and the attempts that no step increases.\<close>

lemma sum_list_update_int:
  "i < length xs \<Longrightarrow> sum_list (map f (xs[i := y])) = sum_list (map f xs) - f (xs ! i) + (f y :: int)"
  by (induction xs arbitrary: i) (auto split: nat.splits)

locale attempt_measure =
  fixes config :: admission_config and cal :: calendar
    and level :: "shared \<Rightarrow> int" and weight :: "attempt_phase \<Rightarrow> int"
  assumes weight_asked: "weight Asked \<le> 0"
    and weight_resume: "attempt_resume config cal rid cx x ph sh = Some (ph', sh')
      \<Longrightarrow> level sh' + weight ph' \<le> level sh + weight ph"
    and level_time: "level (sh\<lparr>sh_now := n\<rparr>) \<le> level sh"
begin

lemma measure_reach:
  assumes "ll_reach config cal good w"
  shows "level (w_shared w) + sum_list (map (weight \<circ> at_phase) (w_attempts w)) \<le> level (shared_new config)"
  using assms
proof induction
  case ll_start
  then show ?case by (simp add: world_new_def)
next
  case (ll_next w e w')
  from ll_next.hyps(2) show ?case
  proof (cases rule: ll_exec_cases)
    case (arrives rid cx)
    then show ?thesis using ll_next.IH weight_asked by simp
  next
    case (passes d)
    then show ?thesis using ll_next.IH level_time [of "sh_now (w_shared w) + d" "w_shared w"] by (simp add: comp_def)
  next
    case (resumes i x a ph)
    then show ?thesis using ll_next.IH weight_resume [OF resumes(4)]
      by (simp add: sum_list_update_int)
  qed
qed

end

end
