(* ===== verification/HostTurn.thy ===== *)
theory HostTurn
  imports HostTurnStep LedgerAttempts
begin

text \<open>
  A HostTurn (\<open>review_session_processor/host_turn.rs\<close>): the envelope reserved for it, the loop of model
  calls and capability results, its settlement, and the request that starts it. Every await returns with
  a value of the turn's environment. The loop and the spend, cooldown and ledger it uses are those of one
  turn at a time; the attempts that run beside it are the subject of \<open>LedgerAttempts\<close>. Left out are the
  text of the prompt around the blocks of \<open>HostTurnStep\<close>, the quality capture and the telemetry.
\<close>

section \<open>Admission of the envelope and of a step\<close>

type_synonym ledger_read = "ledger_error + int"

fun read_then :: "ledger_read \<Rightarrow> (int \<Rightarrow> ledger_error + 'a) \<Rightarrow> ledger_error + 'a" where
  "read_then (Inl e) f = Inl e"
| "read_then (Inr v) f = f v"

text \<open>The rest of an admission after its check of the session: the reads of the ledger, the cooldown at the
  time, and whether a slot is given in time. \<open>None\<close> is admitted.\<close>

definition admit_rest ::
  "int \<Rightarrow> ledger_read \<Rightarrow> ledger_read \<Rightarrow> nat \<Rightarrow> cooldown \<Rightarrow> ledger_error + denial_reason option" where
  "admit_rest micros player global now c =
     read_then player (\<lambda>player_spent.
       if over player_spent micros PLAYER_CEILING_MICROS then Inr (Some PlayerCeiling)
       else read_then global (\<lambda>global_spent.
         if over global_spent micros GLOBAL_CEILING_MICROS then Inr (Some GlobalCeiling)
         else if cooldown_remaining now c \<noteq> None then Inr (Some ProviderCooldown)
         else Inr None))"

definition admit_host_turn_envelope ::
  "ledger_read \<Rightarrow> ledger_read \<Rightarrow> nat \<Rightarrow> cooldown \<Rightarrow> spend \<Rightarrow> (ledger_error + denial_reason option) \<times> spend" where
  "admit_host_turn_envelope player global now c s =
     (let (reserved_ok, s1) = try_reserve HOST_TURN_ENVELOPE_MICROS s
      in if \<not> reserved_ok then (Inr (Some ReviewSessionCeiling), s1)
         else (case admit_rest HOST_TURN_ENVELOPE_MICROS player global now c of
             Inl e \<Rightarrow> (Inl e, s1)
           | Inr (Some reason) \<Rightarrow> (Inr (Some reason), release_reservation HOST_TURN_ENVELOPE_MICROS s1)
           | Inr None \<Rightarrow> (Inr None, s1)))"

definition envelope_release :: "spend \<Rightarrow> spend" where
  "envelope_release s = release_reservation HOST_TURN_ENVELOPE_MICROS s"

definition admit_host_turn_step ::
  "ledger_read \<Rightarrow> ledger_read \<Rightarrow> nat \<Rightarrow> cooldown \<Rightarrow> bool \<Rightarrow> spend \<Rightarrow> ledger_error + denial_reason option" where
  "admit_host_turn_step player global now c slot_in_time s =
     (if reserved s < OPERATION_WORST_CASE_MICROS
         \<or> over (committed s) OPERATION_WORST_CASE_MICROS REVIEW_SESSION_CEILING_MICROS
      then Inr (Some ReviewSessionCeiling)
      else (case admit_rest OPERATION_WORST_CASE_MICROS player global now c of
          Inr None \<Rightarrow> if slot_in_time then Inr None else Inr (Some ConcurrencyUnavailable)
        | r \<Rightarrow> r))"

section \<open>The turn\<close>

datatype unavailable_cause = CauseGroundingRejected | CauseCancelled | CauseOther

datatype turn_terminal =
    TurnCompleted utext "nat option" "show_line option" | TurnRefused refusal_reason | TurnUnavailable unavailable_cause

definition non_retryable_attempt :: completion_attempt where
  "non_retryable_attempt =
     \<lparr>ca_latency = 0, ca_http_status = None, ca_generation_id = None, ca_served_model = None, ca_served_provider = None,
      ca_prompt_tokens = None, ca_completion_tokens = None, ca_reasoning_tokens = None, ca_rounded_micros = None,
      ca_finish_reason = None, ca_raw_content = None, ca_outcome = InvalidRequest\<rparr>"

definition step_observation_of :: "completion_attempt \<Rightarrow> step_capability option \<Rightarrow> step_observation" where
  "step_observation_of a capability =
     \<lparr>so_served_model = ca_served_model a, so_served_provider = ca_served_provider a,
      so_prompt_tokens = ca_prompt_tokens a, so_completion_tokens = ca_completion_tokens a,
      so_cost_micros = cost_micros (ca_rounded_micros a), so_capability = capability\<rparr>"

record observations =
  ob_last_attempt :: completion_attempt
  ob_pin :: pin_judgement
  ob_steps :: "step_observation list"
  ob_model_calls :: nat
  ob_total_cost :: int
  ob_total_prompt :: nat
  ob_total_completion :: nat
  ob_transport_retried :: bool

definition observations_new :: observations where
  "observations_new =
     \<lparr>ob_last_attempt = non_retryable_attempt, ob_pin = JudgeUnverified, ob_steps = [], ob_model_calls = 0,
      ob_total_cost = 0, ob_total_prompt = 0, ob_total_completion = 0, ob_transport_retried = False\<rparr>"

definition or_none :: "nat option \<Rightarrow> nat" where
  "or_none x = (case x of None \<Rightarrow> 0 | Some v \<Rightarrow> v)"

definition observe ::
  "completion_attempt \<Rightarrow> pin_judgement \<Rightarrow> step_capability option \<Rightarrow> bool \<Rightarrow> observations \<Rightarrow> observations" where
  "observe a pin capability counts ob =
     \<lparr>ob_last_attempt = a, ob_pin = (if pin_mismatched (ob_pin ob) then ob_pin ob else pin),
      ob_steps = ob_steps ob @ [step_observation_of a capability],
      ob_model_calls = (if counts then ob_model_calls ob + 1 else ob_model_calls ob),
      ob_total_cost = isat_add (ob_total_cost ob) (cost_micros (ca_rounded_micros a)),
      ob_total_prompt = sat_add u64_max (ob_total_prompt ob) (or_none (ca_prompt_tokens a)),
      ob_total_completion = sat_add u64_max (ob_total_completion ob) (or_none (ca_completion_tokens a)),
      ob_transport_retried = ob_transport_retried ob\<rparr>"

fun transport_retryable :: "completion_outcome \<Rightarrow> bool" where
  "transport_retryable TransportError = True"
| "transport_retryable OutcomeTimedOut = True"
| "transport_retryable HttpError = True"
| "transport_retryable EmptyCompletion = True"
| "transport_retryable _ = False"

definition record_transport_fault ::
  "completion_attempt \<Rightarrow> pin_judgement \<Rightarrow> observations \<Rightarrow> bool \<times> observations" where
  "record_transport_fault a pin ob =
     (let retry = transport_retryable (ca_outcome a) \<and> \<not> ob_transport_retried ob;
          ob1 = (if retry then ob\<lparr>ob_transport_retried := True\<rparr> else ob)
      in (retry, observe a pin None (\<not> retry) ob1))"

text \<open>What the turn is given: the parameters for code outside, the pinned model, and the open moment.\<close>

record turn_setup =
  tu_san :: "utext \<Rightarrow> bool"
  tu_decode :: "utext \<Rightarrow> flat_step option"
  tu_line_identity :: "nat \<Rightarrow> utext list \<Rightarrow> opponent_replies \<Rightarrow> utext"
  tu_error_json :: "utext \<Rightarrow> utext"
  tu_config :: admission_config
  tu_pin_model :: string
  tu_pin_endpoint_tag :: string
  tu_player_id :: string
  tu_fingerprint_digest :: string
  tu_started :: nat
  oc_ply :: nat
  oc_facts_grounding :: grounding
  oc_engine_best_allowed :: bool
  oc_played_refutation_allowed :: bool
  oc_alternative_move_ids :: "string list"

text \<open>What the awaits of one round of the loop return with, and the times the code looks at the clock.\<close>

record turn_round =
  ro_cancelled :: bool
  ro_now :: nat
  ro_player :: ledger_read
  ro_global :: ledger_read
  ro_admit_now :: nat
  ro_slot_in_time :: bool
  ro_reply :: "completion_attempt option"
  ro_reply_now :: nat
  ro_lookups :: "nat \<Rightarrow> nat \<times> pin_lookup"
  ro_cancelled_after :: bool
  ro_now_after :: nat
  ro_dispatch_now :: nat
  ro_dispatch :: "(utext + capability_dispatch) option"

record turn =
  tn_allowed_plies :: "nat list"
  tn_alternative_move_ids :: "string list"
  tn_returned :: "recorded_dispatch list"
  tn_observations :: observations
  tn_corrective :: "utext option"
  tn_denial :: "denial_reason option"
  tn_provider_cooldown :: "nat option"
  tn_spend :: spend
  tn_cooldown :: cooldown
  tn_labels :: "step_label list"
  tn_tripped :: nat
  tn_pin_alerts :: nat

definition turn_start :: "turn_setup \<Rightarrow> spend \<Rightarrow> cooldown \<Rightarrow> turn" where
  "turn_start u s c =
     \<lparr>tn_allowed_plies = [oc_ply u], tn_alternative_move_ids = oc_alternative_move_ids u, tn_returned = [],
      tn_observations = observations_new, tn_corrective = None, tn_denial = None, tn_provider_cooldown = None,
      tn_spend = s, tn_cooldown = c, tn_labels = [], tn_tripped = 0, tn_pin_alerts = 0\<rparr>"

definition turn_deadline :: "turn_setup \<Rightarrow> nat" where
  "turn_deadline u = tu_started u + host_turn_authoring_deadline (tu_config u)"

definition verify_step_pin ::
  "turn_setup \<Rightarrow> (nat \<Rightarrow> nat \<times> pin_lookup) \<Rightarrow> completion_attempt \<Rightarrow> nat \<Rightarrow> pin_judgement" where
  "verify_step_pin u lookups a remaining =
     (let completed = (ca_outcome a = Completed)
      in case ca_generation_id a of
           None \<Rightarrow>
             if \<not> completed then JudgeNotApplicable
             else judge_completed_verification (Inl FailureMissingIdentity) (tu_pin_model u) (tu_pin_endpoint_tag u)
                    completed Runtime
         | Some _ \<Rightarrow>
             judge_completed_verification (verify_generation_within_deadline lookups remaining) (tu_pin_model u)
               (tu_pin_endpoint_tag u) completed Runtime)"

text \<open>A round ends the turn or leaves it to the next round.\<close>

datatype round_result = Ends turn_terminal turn | Continues turn

definition answer_refs_of :: "turn_setup \<Rightarrow> turn \<Rightarrow> answer_refs" where
  "answer_refs_of u t =
     \<lparr>ar_allowed_plies = tn_allowed_plies t, ar_engine_best_allowed = oc_engine_best_allowed u,
      ar_played_refutation_allowed = oc_played_refutation_allowed u,
      ar_alternative_move_ids = tn_alternative_move_ids t\<rparr>"

fun take_step :: "turn_setup \<Rightarrow> turn_round \<Rightarrow> host_turn_step \<Rightarrow> turn \<Rightarrow> round_result" where
  "take_step u ro (CallStep call) t =
     (if tn_corrective t \<noteq> None then Ends (TurnUnavailable CauseOther) t
      else (let t1 = t\<lparr>tn_labels := tn_labels t @ [progress_label call]\<rparr>;
                budget = sat_sub (turn_deadline u) (ro_dispatch_now ro)
            in if budget = 0 then Ends (TurnUnavailable CauseOther) t1
               else (case ro_dispatch ro of
                   None \<Rightarrow> Ends (TurnUnavailable CauseOther) t1
                 | Some (Inr d) \<Rightarrow>
                     (let (plies, ids) = collect_refs (cd_evidence d) (tn_allowed_plies t1) (tn_alternative_move_ids t1)
                      in Continues (t1\<lparr>tn_allowed_plies := plies, tn_alternative_move_ids := ids,
                           tn_returned := tn_returned t1 @ [\<lparr>rd_call_id = cd_call_id d, rd_projection = cd_projection d,
                             rd_literals = cd_literals d\<rparr>]\<rparr>))
                 | Some (Inl message) \<Rightarrow>
                     Continues (t1\<lparr>tn_returned := tn_returned t1 @
                       [failed_dispatch (tu_line_identity u) (tu_error_json u) (oc_ply u) call message]\<rparr>))))"
| "take_step u ro (RefuseStep reason) t = Ends (TurnRefused reason) t"
| "take_step u ro (AnswerStep answer citations focus show) t =
     (let cited = union_cited (oc_facts_grounding u) (tn_returned t) citations
      in case ground_host_turn_answer (tu_san u) cited answer focus show (answer_refs_of u t) of
           Inr _ \<Rightarrow> Ends (TurnCompleted answer focus show) t
         | Inl rejection \<Rightarrow>
             if tn_corrective t = None then Continues (t\<lparr>tn_corrective := Some (lit (rejection_reason rejection))\<rparr>)
             else Ends (TurnUnavailable CauseGroundingRejected) t)"

definition after_reply :: "turn_setup \<Rightarrow> turn_round \<Rightarrow> nat \<Rightarrow> turn \<Rightarrow> round_result" where
  "after_reply u ro remaining t =
     (let a = (case ro_reply ro of Some a \<Rightarrow> a | None \<Rightarrow> non_retryable_attempt);
          (wait, c) = provider_outcome (tu_config u) (ro_reply_now ro) (ca_outcome a) (tn_cooldown t);
          pin = verify_step_pin u (ro_lookups ro) a (sat_sub remaining (ca_latency a));
          t1 = t\<lparr>tn_provider_cooldown := wait, tn_cooldown := c,
                 tn_pin_alerts := tn_pin_alerts t + (if pin_mismatched pin then 1 else 0),
                 tn_spend := record_spend (cost_micros (ca_rounded_micros a)) (tn_spend t)\<rparr>;
          seen = (\<lambda>capability. t1\<lparr>tn_observations := observe a pin capability True (tn_observations t1)\<rparr>)
      in if ro_cancelled_after ro then Ends (TurnUnavailable CauseCancelled) (seen None)
         else if ro_now_after ro \<ge> turn_deadline u then Ends (TurnUnavailable CauseOther) (seen None)
         else if ca_outcome a \<noteq> Completed then
           (let (retry, ob) = record_transport_fault a pin (tn_observations t1);
                t2 = t1\<lparr>tn_observations := ob\<rparr>
            in if retry then Continues t2 else Ends (TurnUnavailable CauseOther) t2)
         else (case parse_step (tu_decode u) a of
             None \<Rightarrow> Ends (TurnUnavailable CauseOther) (seen None)
           | Some step \<Rightarrow> take_step u ro step (seen (step_capability_of step))))"

definition turn_round_step :: "turn_setup \<Rightarrow> turn_round \<Rightarrow> turn \<Rightarrow> round_result" where
  "turn_round_step u ro t =
     (let remaining = sat_sub (turn_deadline u) (ro_now ro)
      in if ro_cancelled ro then Ends (TurnUnavailable CauseCancelled) t
         else if remaining = 0 \<or> int (ob_model_calls (tn_observations t)) \<ge> HOST_TURN_MAX_STEPS
         then Ends (TurnUnavailable CauseOther) t
         else (let t1 = t\<lparr>tn_labels := tn_labels t @ [Writing]\<rparr>
               in case admit_host_turn_step (ro_player ro) (ro_global ro) (ro_admit_now ro) (tn_cooldown t1)
                      (ro_slot_in_time ro) (tn_spend t1) of
                    Inl _ \<Rightarrow> Ends (TurnUnavailable CauseOther) t1
                  | Inr (Some reason) \<Rightarrow>
                      Ends (TurnUnavailable CauseOther)
                        (t1\<lparr>tn_tripped := tn_tripped t1 + (if reason = GlobalCeiling then 1 else 0),
                            tn_denial := Some reason\<rparr>)
                  | Inr None \<Rightarrow> after_reply u ro remaining t1))"

text \<open>The loop, over the rounds the environment has; \<open>None\<close> if it has too few.\<close>

fun turn_loop :: "turn_setup \<Rightarrow> turn_round list \<Rightarrow> turn \<Rightarrow> (turn_terminal \<times> turn) option" where
  "turn_loop u [] t = None"
| "turn_loop u (ro # ros) t = (case turn_round_step u ro t of
     Ends terminal t' \<Rightarrow> Some (terminal, t')
   | Continues t' \<Rightarrow> turn_loop u ros t')"

section \<open>Settlement\<close>

fun terminal_capture_outcome :: "turn_terminal \<Rightarrow> capture_outcome" where
  "terminal_capture_outcome (TurnCompleted _ _ _) = Published"
| "terminal_capture_outcome (TurnRefused _) = Published"
| "terminal_capture_outcome (TurnUnavailable CauseGroundingRejected) = CaptureRejected"
| "terminal_capture_outcome (TurnUnavailable _) = CaptureFailed"

definition capture_outcome_for_denial :: "denial_reason \<Rightarrow> capture_outcome" where
  "capture_outcome_for_denial reason = (if reason = ProviderCooldown then CaptureProviderCooldown else BudgetRefused)"

definition host_turn_error_class ::
  "turn_terminal \<Rightarrow> completion_attempt \<Rightarrow> denial_reason option \<Rightarrow> attempt_error_class option" where
  "host_turn_error_class terminal a denial =
     (case terminal of
        TurnUnavailable cause \<Rightarrow>
          if cause = CauseCancelled then Some Cancelled
          else if denial = None then from_completion (ca_outcome a) else None
      | _ \<Rightarrow> None)"

definition host_turn_decision :: "denial_reason option \<Rightarrow> int \<Rightarrow> budget_decision \<times> denial_reason option" where
  "host_turn_decision denial total_cost = (case denial of
     None \<Rightarrow> (BudgetAdmitted, None)
   | Some reason \<Rightarrow>
       if total_cost > 0 then (BudgetAdmitted, Some reason)
       else if reason = ProviderCooldown then (BudgetProviderCooldown, Some ProviderCooldown)
       else (BudgetDenied, Some reason))"

definition host_turn_record :: "turn_setup \<Rightarrow> string \<Rightarrow> int \<Rightarrow> nat \<Rightarrow> turn_terminal \<Rightarrow> turn \<Rightarrow> op_record" where
  "host_turn_record u rid as_of latency terminal t =
     (let ob = tn_observations t;
          capture = (case tn_denial t of
             Some reason \<Rightarrow> if ob_total_cost ob = 0 then capture_outcome_for_denial reason
                else terminal_capture_outcome terminal
           | None \<Rightarrow> terminal_capture_outcome terminal);
          (decision, denial) = host_turn_decision (tn_denial t) (ob_total_cost ob);
          cooldown = (if tn_denial t = Some ProviderCooldown then
             (case cd_honoured (tn_cooldown t) of Some w \<Rightarrow> Some w | None \<Rightarrow> tn_provider_cooldown t)
           else tn_provider_cooldown t)
      in \<lparr>or_request_id = rid, or_player_id = tu_player_id u, or_settled_at = as_of, or_latency = latency,
          or_cost_micros = ob_total_cost ob,
          or_prompt_tokens = (if 0 < ob_total_prompt ob then Some (ob_total_prompt ob) else None),
          or_completion_tokens = (if 0 < ob_total_completion ob then Some (ob_total_completion ob) else None),
          or_budget_decision = decision, or_denial_reason = denial,
          or_error_class = host_turn_error_class terminal (ob_last_attempt ob) (tn_denial t),
          or_pin_verification = as_verdict (ob_pin ob), or_pin_cause = pin_cause_of (ob_pin ob),
          or_fingerprint_digest = tu_fingerprint_digest u, or_capture_outcome = Some capture,
          or_provider_cooldown = cooldown, or_steps = ob_steps ob\<rparr>)"

definition denied_host_turn_record ::
  "turn_setup \<Rightarrow> string \<Rightarrow> int \<Rightarrow> denial_reason \<Rightarrow> nat option \<Rightarrow> op_record" where
  "denied_host_turn_record u rid as_of reason honoured =
     \<lparr>or_request_id = rid, or_player_id = tu_player_id u, or_settled_at = as_of, or_latency = 0, or_cost_micros = 0,
      or_prompt_tokens = None, or_completion_tokens = None,
      or_budget_decision = (if reason = ProviderCooldown then BudgetProviderCooldown else BudgetDenied),
      or_denial_reason = Some reason, or_error_class = None,
      or_pin_verification = as_verdict JudgeNotApplicable, or_pin_cause = pin_cause_of JudgeNotApplicable,
      or_fingerprint_digest = tu_fingerprint_digest u,
      or_capture_outcome = Some (capture_outcome_for_denial reason),
      or_provider_cooldown = (if reason = ProviderCooldown then honoured else None), or_steps = []\<rparr>"

section \<open>Starting a turn\<close>

datatype unavailable_reason = LanguageLayerUnavailable | PersistenceUnavailable

datatype turn_event =
    EventAccepted | EventProgress step_label | EventCompleted utext "nat option" "show_line option"
  | EventRefused refusal_reason | EventCancelled | EventUnavailable unavailable_reason bool
  | EventConflict | EventRejected

fun terminal_event :: "turn_terminal \<Rightarrow> turn_event" where
  "terminal_event (TurnCompleted answer focus show) = EventCompleted answer focus show"
| "terminal_event (TurnRefused reason) = EventRefused reason"
| "terminal_event (TurnUnavailable cause) =
     (if cause = CauseCancelled then EventCancelled else EventUnavailable LanguageLayerUnavailable False)"

record turn_request =
  rq_idempotency_key :: string
  rq_message :: utext
  rq_prior_turns :: "(utext \<times> utext) list"

text \<open>What the request finds: whether a Player and a hosted runtime are bound, the open moment, whether a
  ledger is configured, the reads of the ledger, the lease of the coach turn and the registration of the
  live operation, and the rounds and the settlement of its turn.\<close>

record turn_env =
  te_bound :: bool
  te_setup :: "turn_setup option"
  te_has_ledger :: bool
  te_as_of :: int
  te_player :: ledger_read
  te_global :: ledger_read
  te_now :: nat
  te_leased :: bool
  te_registered :: bool
  te_rounds :: "turn_round list"
  te_request_id :: string
  te_settled_as_of :: int
  te_latency :: nat
  te_settles :: bool
  te_final_global :: ledger_read

record host_state =
  hs_spend :: spend
  hs_cooldown :: cooldown
  hs_ledger :: memory_ledger
  hs_host_turns :: "(string, turn_terminal) btree_map"
  hs_tripped :: nat

definition settle_or_log :: "calendar \<Rightarrow> bool \<Rightarrow> op_record \<Rightarrow> memory_ledger \<Rightarrow> memory_ledger" where
  "settle_or_log cal settles r l = (if settles then settle cal r l else l)"

definition global_tripped :: "ledger_read \<Rightarrow> nat" where
  "global_tripped global = (case global of Inr v \<Rightarrow> if v \<ge> GLOBAL_CEILING_MICROS then 1 else 0 | Inl _ \<Rightarrow> 0)"

definition unavailable :: "host_state \<Rightarrow> (turn_event list \<times> host_state) option" where
  "unavailable st = Some ([EventUnavailable LanguageLayerUnavailable False], st)"

text \<open>The turn after the envelope, the lease and the registration.\<close>

definition run_host_turn ::
  "calendar \<Rightarrow> turn_env \<Rightarrow> turn_setup \<Rightarrow> spend \<Rightarrow> host_state \<Rightarrow> (turn_terminal \<times> turn \<times> host_state) option" where
  "run_host_turn cal env u s st =
     (case turn_loop u (te_rounds env) (turn_start u s (hs_cooldown st)) of
        None \<Rightarrow> None
      | Some (terminal, t) \<Rightarrow>
          (let r = host_turn_record u (te_request_id env) (te_settled_as_of env) (te_latency env) terminal t
           in Some (terminal, t,
                st\<lparr>hs_spend := tn_spend t, hs_cooldown := tn_cooldown t,
                   hs_ledger := settle_or_log cal (te_settles env) r (hs_ledger st),
                   hs_tripped := hs_tripped st + tn_tripped t + global_tripped (te_final_global env)\<rparr>)))"

definition start_host_turn ::
  "calendar \<Rightarrow> turn_env \<Rightarrow> turn_request \<Rightarrow> host_state \<Rightarrow> (turn_event list \<times> host_state) option" where
  "start_host_turn cal env rq st =
     (case bt_get (hs_host_turns st) (rq_idempotency_key rq) of
        Some replay \<Rightarrow> Some ([EventAccepted, terminal_event replay], st)
      | None \<Rightarrow>
     (if gate_player_message (rq_message rq) = Inl ()
         \<or> list_ex (\<lambda>(m, a). gate_player_message m = Inl () \<or> gate_player_message a = Inl ()) (rq_prior_turns rq)
      then unavailable st
      else if \<not> te_bound env then unavailable st
      else (case te_setup env of None \<Rightarrow> unavailable st | Some u \<Rightarrow>
     (if \<not> te_has_ledger env then unavailable st
      else (case admit_host_turn_envelope (te_player env) (te_global env) (te_now env) (hs_cooldown st) (hs_spend st) of
          (Inl e, s) \<Rightarrow> Some ([EventUnavailable PersistenceUnavailable True], st\<lparr>hs_spend := s\<rparr>)
        | (Inr (Some reason), s) \<Rightarrow>
            Some ([EventUnavailable LanguageLayerUnavailable False],
              st\<lparr>hs_spend := s,
                 hs_ledger := settle_or_log cal (te_settles env)
                   (denied_host_turn_record u (te_request_id env) (te_as_of env) reason (cd_honoured (hs_cooldown st)))
                   (hs_ledger st),
                 hs_tripped := hs_tripped st + (if reason = GlobalCeiling then 1 else 0)\<rparr>)
        | (Inr None, s) \<Rightarrow>
            if \<not> te_leased env then Some ([EventConflict], st\<lparr>hs_spend := envelope_release s\<rparr>)
            else if \<not> te_registered env then Some ([EventRejected], st\<lparr>hs_spend := envelope_release s\<rparr>)
            else (case run_host_turn cal env u s st of
                None \<Rightarrow> None
              | Some (terminal, t, st') \<Rightarrow>
                  Some ([EventAccepted] @ map EventProgress (tn_labels t) @ [terminal_event terminal],
                    st'\<lparr>hs_spend := envelope_release (hs_spend st'),
                        hs_host_turns := bt_insert (rq_idempotency_key rq) terminal (hs_host_turns st')\<rparr>)))))))"

end
