(* ===== verification/HostTurnSafety.thy ===== *)
theory HostTurnSafety
  imports HostTurn
begin

text \<open>
  What every round of a HostTurn keeps: the calls it has made, the spend of the session within the
  envelope, and the grounding of what it answers.
\<close>

section \<open>What a round changes\<close>

fun turn_of :: "round_result \<Rightarrow> turn" where
  "turn_of (Ends terminal t) = t"
| "turn_of (Continues t) = t"

lemma take_step_keeps:
  "tn_observations (turn_of (take_step u ro step t)) = tn_observations t
   \<and> tn_spend (turn_of (take_step u ro step t)) = tn_spend t
   \<and> tn_denial (turn_of (take_step u ro step t)) = tn_denial t"
  by (cases step) (auto simp: Let_def split: option.splits sum.splits prod.splits)

definition reply_of :: "turn_round \<Rightarrow> completion_attempt" where
  "reply_of ro = (case ro_reply ro of Some a \<Rightarrow> a | None \<Rightarrow> non_retryable_attempt)"

definition reply_cost :: "turn_round \<Rightarrow> int" where
  "reply_cost ro = cost_micros (ca_rounded_micros (reply_of ro))"

text \<open>The reply of a round is observed once: as a model call, or as the one retried transport fault.\<close>

definition observed_reply :: "turn_round \<Rightarrow> observations \<Rightarrow> observations \<Rightarrow> bool" where
  "observed_reply ro ob ob' \<longleftrightarrow> (\<exists>pin capability.
     ob' = observe (reply_of ro) pin capability True ob
     \<or> \<not> ob_transport_retried ob \<and> ob' = observe (reply_of ro) pin capability False (ob\<lparr>ob_transport_retried := True\<rparr>))"

lemma observed_call [intro]: "observed_reply ro ob (observe (reply_of ro) pin capability True ob)"
  unfolding observed_reply_def by blast

lemma observed_retry [intro]:
  "\<not> ob_transport_retried ob
    \<Longrightarrow> observed_reply ro ob (observe (reply_of ro) pin capability False (ob\<lparr>ob_transport_retried := True\<rparr>))"
  unfolding observed_reply_def by blast

lemma transport_fault_observed:
  "record_transport_fault (reply_of ro) pin ob = (retry, ob') \<Longrightarrow> observed_reply ro ob ob'"
  by (auto simp: record_transport_fault_def Let_def split: if_splits)

lemma after_reply_turn:
  "observed_reply ro (tn_observations t) (tn_observations (turn_of (after_reply u ro remaining t)))
   \<and> tn_spend (turn_of (after_reply u ro remaining t)) = record_spend (reply_cost ro) (tn_spend t)
   \<and> tn_denial (turn_of (after_reply u ro remaining t)) = tn_denial t"
proof -
  let ?a = "reply_of ro"
  obtain wait c where p: "provider_outcome (tu_config u) (ro_reply_now ro) (ca_outcome ?a) (tn_cooldown t) = (wait, c)"
    by fastforce
  let ?pin = "verify_step_pin u (ro_lookups ro) ?a (sat_sub remaining (ca_latency ?a))"
  obtain retry ob where f: "record_transport_fault ?a ?pin (tn_observations t) = (retry, ob)" by fastforce
  have obs: "observed_reply ro (tn_observations t) (observe ?a pin capability True (tn_observations t))" for pin capability
    by (rule observed_call)
  show ?thesis
    using transport_fault_observed [OF f] obs take_step_keeps
    unfolding after_reply_def reply_of_def [symmetric] Let_def p prod.case
    by (auto simp: f reply_cost_def split: option.splits)
qed

text \<open>A round that continues has had a reply; one that ends may have had none.\<close>

lemma round_turn:
  assumes "turn_round_step u ro t = r"
  shows "(\<exists>terminal. r = Ends terminal (turn_of r)) \<and> tn_observations (turn_of r) = tn_observations t
       \<and> tn_spend (turn_of r) = tn_spend t
       \<and> (tn_denial (turn_of r) = tn_denial t \<or>
          admit_host_turn_step (ro_player ro) (ro_global ro) (ro_admit_now ro) (tn_cooldown t) (ro_slot_in_time ro) (tn_spend t)
            = Inr (tn_denial (turn_of r)) \<and> int (ob_model_calls (tn_observations t)) < HOST_TURN_MAX_STEPS)
     \<or> int (ob_model_calls (tn_observations t)) < HOST_TURN_MAX_STEPS
       \<and> observed_reply ro (tn_observations t) (tn_observations (turn_of r))
       \<and> tn_spend (turn_of r) = record_spend (reply_cost ro) (tn_spend t)
       \<and> tn_denial (turn_of r) = tn_denial t
       \<and> admit_host_turn_step (ro_player ro) (ro_global ro) (ro_admit_now ro) (tn_cooldown t) (ro_slot_in_time ro) (tn_spend t)
            = Inr None"
proof -
  note after = after_reply_turn [of ro "t\<lparr>tn_labels := tn_labels t @ [Writing]\<rparr>" u "sat_sub (turn_deadline u) (ro_now ro)"]
  show ?thesis
    using after assms unfolding turn_round_step_def Let_def
    by (auto split: if_splits sum.splits option.splits)
qed

section \<open>Invariants of the loop\<close>

lemma turn_loop_invariant:
  assumes step: "\<And>ro t. ro \<in> set ros \<Longrightarrow> keep t \<Longrightarrow> keep (turn_of (turn_round_step u ro t))"
    and start: "keep t" and run: "turn_loop u ros t = Some (terminal, t')"
  shows "keep t'"
  using assms
proof (induction ros arbitrary: t)
  case (Cons ro ros)
  have inv: "keep (turn_of (turn_round_step u ro t))" using Cons.prems(1) [of ro t] Cons.prems(2) by simp
  show ?case
  proof (cases "turn_round_step u ro t")
    case (Ends result t1)
    then show ?thesis using inv Cons.prems(3) by simp
  next
    case (Continues t1)
    then show ?thesis using inv Cons.prems by (intro Cons.IH [of t1]) auto
  qed
qed simp

text \<open>The calls of a turn: those that count as model calls, and one retried transport fault.\<close>

definition retried :: "observations \<Rightarrow> nat" where
  "retried ob = (if ob_transport_retried ob then 1 else 0)"

definition calls_ok :: "observations \<Rightarrow> bool" where
  "calls_ok ob \<longleftrightarrow> length (ob_steps ob) = ob_model_calls ob + retried ob \<and> int (ob_model_calls ob) \<le> HOST_TURN_MAX_STEPS"

lemma observed_calls:
  assumes "observed_reply ro ob ob'" and "calls_ok ob" and "int (ob_model_calls ob) < HOST_TURN_MAX_STEPS"
  shows "calls_ok ob' \<and> length (ob_steps ob') = length (ob_steps ob) + 1"
  using assms by (auto simp: observed_reply_def calls_ok_def retried_def observe_def)

lemma calls_at_most: "calls_ok ob \<Longrightarrow> length (ob_steps ob) \<le> 4"
  by (auto simp: calls_ok_def retried_def HOST_TURN_MAX_STEPS_def)

lemma round_calls:
  assumes "calls_ok (tn_observations t)"
  shows "calls_ok (tn_observations (turn_of (turn_round_step u ro t)))"
  using round_turn [OF refl, of u ro t] observed_calls assms by auto

lemma turn_loop_returns:
  assumes "calls_ok (tn_observations t)" and "5 \<le> length (ob_steps (tn_observations t)) + length ros"
  shows "\<exists>terminal t'. turn_loop u ros t = Some (terminal, t')"
  using assms
proof (induction ros arbitrary: t)
  case Nil
  then show ?case using calls_at_most [of "tn_observations t"] by simp
next
  case (Cons ro ros)
  show ?case
  proof (cases "turn_round_step u ro t")
    case (Ends terminal t1)
    then show ?thesis by simp
  next
    case (Continues t1)
    have "int (ob_model_calls (tn_observations t)) < HOST_TURN_MAX_STEPS"
        "observed_reply ro (tn_observations t) (tn_observations t1)"
      using round_turn [OF Continues] by auto
    then have "calls_ok (tn_observations t1)"
        "length (ob_steps (tn_observations t1)) = length (ob_steps (tn_observations t)) + 1"
      using observed_calls Cons.prems(1) by auto
    then show ?thesis using Cons.IH [of t1] Cons.prems(2) Continues by simp
  qed
qed

lemma observations_new_calls: "calls_ok observations_new"
  by (simp add: calls_ok_def observations_new_def retried_def HOST_TURN_MAX_STEPS_def)

section \<open>The spend within the envelope\<close>

lemma reply_cost_nonneg: "0 \<le> reply_cost ro"
  by (auto simp: reply_cost_def cost_micros_def i64_max_def split: option.splits)

lemma admit_rest_not_session: "admit_rest micros player global now c \<noteq> Inr (Some ReviewSessionCeiling)"
  by (cases player; cases global) (auto simp: admit_rest_def)

text \<open>The session has committed \<open>c0\<close> when the envelope is reserved.\<close>

definition envelope_ok :: "int \<Rightarrow> turn \<Rightarrow> bool" where
  "envelope_ok c0 t \<longleftrightarrow>
     calls_ok (tn_observations t) \<and> 0 \<le> ob_total_cost (tn_observations t)
     \<and> ob_total_cost (tn_observations t) \<le> OPERATION_CEILING_MICROS * int (length (ob_steps (tn_observations t)))
     \<and> reserved (tn_spend t) = HOST_TURN_ENVELOPE_MICROS - ob_total_cost (tn_observations t)
     \<and> committed (tn_spend t) = c0 + ob_total_cost (tn_observations t)
     \<and> tn_denial t \<noteq> Some ReviewSessionCeiling"

lemma observed_cost:
  assumes "observed_reply ro ob ob'" and "0 \<le> ob_total_cost ob" and "ob_total_cost ob \<le> 20000"
    and "reply_cost ro \<le> OPERATION_CEILING_MICROS"
  shows "ob_total_cost ob' = ob_total_cost ob + reply_cost ro"
  using assms reply_cost_nonneg [of ro]
  by (auto simp: observed_reply_def observe_def reply_cost_def isat_add_def i64_min_def i64_max_def money_defs)

lemma step_within_envelope:
  assumes "envelope_ok c0 t" and "0 \<le> c0" and "c0 \<le> 5000"
    and "int (ob_model_calls (tn_observations t)) < HOST_TURN_MAX_STEPS"
  shows "OPERATION_CEILING_MICROS \<le> reserved (tn_spend t) \<and> committed (tn_spend t) \<le> 20000
    \<and> admit_host_turn_step player global now c slot (tn_spend t) \<noteq> Inr (Some ReviewSessionCeiling)"
proof -
  have "length (ob_steps (tn_observations t)) \<le> 3"
    using assms(1,4) by (auto simp: envelope_ok_def calls_ok_def retried_def HOST_TURN_MAX_STEPS_def split: if_splits)
  then have total: "0 \<le> ob_total_cost (tn_observations t)" "ob_total_cost (tn_observations t) \<le> 15000"
    using assms(1) by (auto simp: envelope_ok_def money_defs)
  then have room: "5000 \<le> reserved (tn_spend t)" "committed (tn_spend t) \<le> 20000" "0 \<le> committed (tn_spend t)"
    using assms(1-3) by (auto simp: envelope_ok_def money_defs)
  then have "\<not> over (committed (tn_spend t)) OPERATION_WORST_CASE_MICROS REVIEW_SESSION_CEILING_MICROS"
    by (simp add: over_def isat_add_def i64_min_def i64_max_def money_defs)
  then show ?thesis
    using room admit_rest_not_session [of OPERATION_WORST_CASE_MICROS player global now c]
    by (auto simp: admit_host_turn_step_def money_defs split: sum.splits option.splits)
qed

lemma round_envelope:
  assumes ok: "envelope_ok c0 t" and c0: "0 \<le> c0" "c0 \<le> 5000" and cheap: "reply_cost ro \<le> OPERATION_CEILING_MICROS"
  shows "envelope_ok c0 (turn_of (turn_round_step u ro t))"
proof -
  let ?t = "turn_of (turn_round_step u ro t)"
  from round_turn [OF refl, of u ro t] show ?thesis
  proof
    assume none: "(\<exists>terminal. turn_round_step u ro t = Ends terminal ?t) \<and> tn_observations ?t = tn_observations t
       \<and> tn_spend ?t = tn_spend t
       \<and> (tn_denial ?t = tn_denial t \<or>
          admit_host_turn_step (ro_player ro) (ro_global ro) (ro_admit_now ro) (tn_cooldown t) (ro_slot_in_time ro) (tn_spend t)
            = Inr (tn_denial ?t) \<and> int (ob_model_calls (tn_observations t)) < HOST_TURN_MAX_STEPS)"
    then have "tn_denial ?t \<noteq> Some ReviewSessionCeiling"
      using step_within_envelope [OF ok c0] ok by (auto simp: envelope_ok_def)
    then show ?thesis using none ok by (simp add: envelope_ok_def)
  next
    assume reply: "int (ob_model_calls (tn_observations t)) < HOST_TURN_MAX_STEPS
       \<and> observed_reply ro (tn_observations t) (tn_observations ?t)
       \<and> tn_spend ?t = record_spend (reply_cost ro) (tn_spend t) \<and> tn_denial ?t = tn_denial t
       \<and> admit_host_turn_step (ro_player ro) (ro_global ro) (ro_admit_now ro) (tn_cooldown t) (ro_slot_in_time ro) (tn_spend t)
            = Inr None"
    have room: "OPERATION_CEILING_MICROS \<le> reserved (tn_spend t)" "committed (tn_spend t) \<le> 20000"
      using step_within_envelope [OF ok c0 conjunct1 [OF reply]] by auto
    have total: "0 \<le> ob_total_cost (tn_observations t)" "ob_total_cost (tn_observations t) \<le> 20000"
      using ok room(1) by (auto simp: envelope_ok_def money_defs)
    have cost: "ob_total_cost (tn_observations ?t) = ob_total_cost (tn_observations t) + reply_cost ro"
      using observed_cost [OF _ total cheap] reply by blast
    have calls: "calls_ok (tn_observations ?t)"
        "length (ob_steps (tn_observations ?t)) = length (ob_steps (tn_observations t)) + 1"
      using observed_calls [of ro "tn_observations t"] reply ok by (auto simp: envelope_ok_def)
    have spend: "reserved (tn_spend ?t) = reserved (tn_spend t) - reply_cost ro"
        "committed (tn_spend ?t) = committed (tn_spend t) + reply_cost ro"
      using reply room cheap reply_cost_nonneg [of ro] ok c0
      by (auto simp: record_spend_def Let_def isat_add_def i64_min_def i64_max_def envelope_ok_def money_defs)
    show ?thesis using ok cost calls spend reply cheap reply_cost_nonneg [of ro]
      by (simp add: envelope_ok_def money_defs)
  qed
qed

end
