(* ===== verification/LedgerSafety.thy ===== *)
theory LedgerSafety
  imports LedgerAttempts
begin

text \<open>
  What holds of the hosted attempts in every interleaving: the provider slots, the spend of the
  session against its ceiling, and the agreement of the spend with the bills of the ledger.
\<close>

section \<open>Provider slots\<close>

definition slots_held :: "attempt_phase \<Rightarrow> int" where
  "slots_held ph = (if ph = InProvider then 1 else 0)"

definition in_provider :: "ll_world \<Rightarrow> nat" where
  "in_provider w = length (filter (\<lambda>a. at_phase a = InProvider) (w_attempts w))"

lemma resume_slots:
  "attempt_resume config cal rid cx x ph sh = Some (ph', sh')
     \<Longrightarrow> int (sh_free sh') + slots_held ph' = int (sh_free sh) + slots_held ph"
  by (cases ph) (auto simp: slots_held_def resume_defs trip_def split: resume_splits)

interpretation slots: attempt_measure config cal "\<lambda>sh. int (sh_free sh)" slots_held for config cal
  by unfold_locales (auto simp: slots_held_def dest: resume_slots)

interpretation slots_back: attempt_measure config cal "\<lambda>sh. - int (sh_free sh)" "\<lambda>ph. - slots_held ph"
  for config cal
  by unfold_locales (auto simp: slots_held_def dest!: resume_slots)

lemma sum_slots: "sum_list (map (slots_held \<circ> at_phase) xs) = int (length (filter (\<lambda>a. at_phase a = InProvider) xs))"
  by (induction xs) (auto simp: slots_held_def)

lemma sum_uminus: "sum_list (map ((\<lambda>x. - f x) \<circ> g) xs) = - sum_list (map (f \<circ> g) xs :: int list)"
  by (induction xs) auto

lemma slots_conserved:
  assumes "ll_reach config cal good w"
  shows "in_provider w + sh_free (w_shared w) = max_concurrent_provider_calls config"
  using slots.measure_reach [OF assms] slots_back.measure_reach [OF assms]
  by (simp add: in_provider_def sum_slots sum_uminus shared_new_def)

section \<open>Spend of the session and bills of the ledger\<close>

lemma cost_micros_range: "0 \<le> cost_micros x" "cost_micros x \<le> i64_max"
  by (auto simp: cost_micros_def i64_max_def split: option.splits)

abbreviation all_bills :: "shared \<Rightarrow> int" where
  "all_bills sh \<equiv> bills (\<lambda>_. True) (op_records (sh_ledger sh))"

fun pending_bill :: "attempt_phase \<Rightarrow> int" where
  "pending_bill (SpendSettling r a) = (if billed r then or_cost_micros r else 0)"
| "pending_bill _ = 0"

fun unpaid :: "attempt_phase \<Rightarrow> bool" where
  "unpaid (DenialSettling reason r) = (\<not> billed r)"
| "unpaid (CancelSettling r) = (\<not> billed r)"
| "unpaid _ = True"

lemma pending_bill_nonneg: "0 \<le> pending_bill ph"
  by (cases ph) (auto simp: billed_def)

lemma records_settle [simp]: "op_records (settle cal r l) = op_records l @ [r]"
  by (simp add: settle_def Let_def)

lemma billed_denied [simp]: "\<not> billed (denied_record rid cx reason h)"
  by (auto simp: billed_def denied_record_def Let_def split: prod.splits)

lemma billed_cancelled [simp]: "\<not> billed (cancelled_without_provider rid cx)"
  by (simp add: billed_def cancelled_without_provider_def)

lemma billed_admitted [simp]: "billed (admitted_record rid cx a cost wait) \<longleftrightarrow> 0 < cost"
  by (simp add: billed_def admitted_record_def)

lemma cost_admitted [simp]: "or_cost_micros (admitted_record rid cx a cost wait) = cost"
  by (simp add: admitted_record_def)

interpretation unpaid: attempt_fact config cal good "\<lambda>rid cx ph sh. unpaid ph" for config cal good
proof unfold_locales
  fix rid cx ph sh i x w ph' sh'
  assume "attempt_resume config cal rid cx x ph sh = Some (ph', sh')"
  then show "unpaid ph'"
    by (cases ph) (auto simp: resume_defs split: resume_splits)
qed auto

text \<open>A step moves the total of bills and pending bills by as much as the committed spend, unless the
  ledger fails and the attempt ends.\<close>

definition committed_of :: "shared \<Rightarrow> int" where
  "committed_of sh = committed (sh_spend sh)"

lemma resume_accounts:
  assumes "attempt_resume config cal rid cx x ph sh = Some (ph', sh')" and "unpaid ph"
    and "reserved (sh_spend sh) = 0" and "0 \<le> committed_of sh" and "committed_of sh \<le> i64_max"
  shows "reserved (sh_spend sh') = 0"
    and "x \<noteq> LedgerFails \<Longrightarrow> committed_of sh' = min i64_max (committed_of sh
           + (all_bills sh' + pending_bill ph' - (all_bills sh + pending_bill ph)))"
    and "x \<noteq> LedgerFails \<Longrightarrow> all_bills sh + pending_bill ph \<le> all_bills sh' + pending_bill ph'"
    and "x = LedgerFails \<Longrightarrow> sh' = sh \<and> pending_bill ph' = 0"
proof -
  have c: "0 \<le> cost_micros y" "cost_micros y \<le> i64_max" for y by (rule cost_micros_range)+
  note defs = resume_defs committed_of_def trip_def record_spend_def isat_add_def i64_min_def
  show "reserved (sh_spend sh') = 0"
    using assms by (cases ph) (auto simp: defs split: resume_splits)
  show "committed_of sh' = min i64_max (committed_of sh
           + (all_bills sh' + pending_bill ph' - (all_bills sh + pending_bill ph)))" if "x \<noteq> LedgerFails"
  proof (cases ph)
    case (OpenAttempt a wait)
    then show ?thesis using assms that c [of "ca_rounded_micros a"]
      by (auto simp: defs i64_max_def split: resume_splits)
  qed (use assms that in \<open>auto simp: defs split: resume_splits\<close>)
  show "all_bills sh + pending_bill ph \<le> all_bills sh' + pending_bill ph'" if "x \<noteq> LedgerFails"
  proof (cases ph)
    case (OpenAttempt a wait)
    then show ?thesis using assms that c [of "ca_rounded_micros a"]
      by (auto simp: defs split: resume_splits)
  qed (use assms that in \<open>auto simp: defs split: resume_splits\<close>)
  show "sh' = sh \<and> pending_bill ph' = 0" if "x = LedgerFails"
    using assms that by (cases ph) (auto simp: defs split: resume_splits)
qed

definition session_bills :: "ll_world \<Rightarrow> int" where
  "session_bills w = all_bills (w_shared w) + sum_list (map (pending_bill \<circ> at_phase) (w_attempts w))"

definition ledger_answers :: "ll_event \<Rightarrow> ll_world \<Rightarrow> bool" where
  "ledger_answers e w \<longleftrightarrow> (case e of Resumes i x \<Rightarrow> x \<noteq> LedgerFails | _ \<Rightarrow> True)"

lemma sum_pending_nonneg: "0 \<le> sum_list (map (pending_bill \<circ> at_phase) xs)"
  by (induction xs) (auto simp: pending_bill_nonneg)

definition spend_ok :: "shared \<Rightarrow> bool" where
  "spend_ok sh \<longleftrightarrow> reserved (sh_spend sh) = 0 \<and> 0 \<le> committed_of sh \<and> committed_of sh \<le> i64_max"

text \<open>What one event does to the committed spend and the bills, whatever the ledger does.\<close>

lemma exec_accounts:
  assumes exec: "ll_exec config cal e w = Some w'" and unpaid: "\<forall>a \<in> set (w_attempts w). unpaid (at_phase a)"
    and ok: "spend_ok (w_shared w)"
  shows "spend_ok (w_shared w')"
    and "ledger_answers e w' \<Longrightarrow> committed_of (w_shared w') =
          min i64_max (committed_of (w_shared w) + (session_bills w' - session_bills w))"
    and "ledger_answers e w' \<Longrightarrow> session_bills w \<le> session_bills w'"
    and "\<not> ledger_answers e w' \<Longrightarrow> committed_of (w_shared w') = committed_of (w_shared w)
          \<and> session_bills w' \<le> session_bills w"
proof -
  from exec have "spend_ok (w_shared w') \<and>
    (if ledger_answers e w' then
       committed_of (w_shared w') = min i64_max (committed_of (w_shared w) + (session_bills w' - session_bills w))
       \<and> session_bills w \<le> session_bills w'
     else committed_of (w_shared w') = committed_of (w_shared w) \<and> session_bills w' \<le> session_bills w)"
  proof (cases rule: ll_exec_cases)
    case (arrives rid cx)
    then show ?thesis using ok by (simp add: ledger_answers_def session_bills_def spend_ok_def)
  next
    case (passes d)
    then show ?thesis using ok by (simp add: ledger_answers_def session_bills_def spend_ok_def committed_of_def)
  next
    case (resumes i x a ph)
    have u: "unpaid (at_phase a)" using unpaid resumes(2,3) by simp
    have r: "reserved (sh_spend (w_shared w)) = 0" "0 \<le> committed_of (w_shared w)"
      "committed_of (w_shared w) \<le> i64_max" using ok by (auto simp: spend_ok_def)
    note acc = resume_accounts [OF resumes(4) u r]
    have diff: "session_bills w' - session_bills w = all_bills (w_shared w') + pending_bill ph
        - (all_bills (w_shared w) + pending_bill (at_phase a))"
      using resumes(2,3,5) by (simp add: session_bills_def sum_list_update_int)
    have ans: "ledger_answers e w' \<longleftrightarrow> x \<noteq> LedgerFails" using resumes(1) by (simp add: ledger_answers_def)
    show ?thesis
    proof (cases "x = LedgerFails")
      case True
      then show ?thesis using acc(1) acc(4) [OF True] diff r ans pending_bill_nonneg [of "at_phase a"]
        by (simp add: spend_ok_def)
    next
      case False
      have "0 \<le> committed_of (w_shared w')" "committed_of (w_shared w') \<le> i64_max"
        using acc(2,3) [OF False] r by (auto simp: i64_max_def)
      then show ?thesis using False acc(1) acc(2,3) [OF False] diff ans by (simp add: spend_ok_def)
    qed
  qed
  then show "spend_ok (w_shared w')"
    and "ledger_answers e w' \<Longrightarrow> committed_of (w_shared w') =
          min i64_max (committed_of (w_shared w) + (session_bills w' - session_bills w))"
    and "ledger_answers e w' \<Longrightarrow> session_bills w \<le> session_bills w'"
    and "\<not> ledger_answers e w' \<Longrightarrow> committed_of (w_shared w') = committed_of (w_shared w)
          \<and> session_bills w' \<le> session_bills w"
    by auto
qed

lemma accounts_start: "session_bills (world_new config) = 0" "spend_ok (w_shared (world_new config))"
  "committed_of (w_shared (world_new config)) = 0"
  by (simp_all add: world_new_def shared_new_def session_bills_def memory_new_def spend_ok_def spend_new_def
      committed_of_def i64_max_def)

lemma spend_covers:
  assumes "ll_reach config cal good w"
  shows "spend_ok (w_shared w) \<and> min i64_max (session_bills w) \<le> committed_of (w_shared w)"
  using assms
proof induction
  case ll_start
  then show ?case using accounts_start by simp
next
  case (ll_next w e w')
  have "\<forall>a \<in> set (w_attempts w). unpaid (at_phase a)" using unpaid.fact_reach [OF ll_next.hyps(1)] .
  note acc = exec_accounts [OF ll_next.hyps(2) this conjunct1 [OF ll_next.IH]]
  show ?case using acc ll_next.IH by (cases "ledger_answers e w'") auto
qed

lemma spend_equals:
  assumes "ll_reach config cal ledger_answers w"
  shows "committed_of (w_shared w) = min i64_max (session_bills w) \<and> 0 \<le> session_bills w"
  using assms
proof induction
  case ll_start
  then show ?case using accounts_start [of config] by (simp add: i64_max_def)
next
  case (ll_next w e w')
  have "\<forall>a \<in> set (w_attempts w). unpaid (at_phase a)" using unpaid.fact_reach [OF ll_next.hyps(1)] .
  note acc = exec_accounts [OF ll_next.hyps(2) this conjunct1 [OF spend_covers [OF ll_next.hyps(1)]]]
  show ?case using acc(2,3) [OF ll_next.hyps(3)] ll_next.IH by auto
qed

section \<open>The session against its ceiling\<close>

fun past_check :: "attempt_phase \<Rightarrow> bool" where
  "past_check PlayerRead = True"
| "past_check GlobalRead = True"
| "past_check (SlotWait _) = True"
| "past_check InProvider = True"
| "past_check (OpenAttempt _ _) = True"
| "past_check _ = False"

definition in_flight :: "ll_world \<Rightarrow> nat" where
  "in_flight w = length (filter (past_check \<circ> at_phase) (w_attempts w))"

definition moderate :: "int \<Rightarrow> nat \<Rightarrow> ll_event \<Rightarrow> ll_world \<Rightarrow> bool" where
  "moderate c n e w \<longleftrightarrow> in_flight w \<le> n \<and>
     (case e of Resumes i (ProviderReplies a) \<Rightarrow> cost_micros (ca_rounded_micros a) \<le> c | _ \<Rightarrow> True)"

fun cheap :: "int \<Rightarrow> attempt_phase \<Rightarrow> bool" where
  "cheap c (OpenAttempt a _) = (cost_micros (ca_rounded_micros a) \<le> c)"
| "cheap c _ = True"

interpretation cheap: attempt_fact config cal "moderate c n" "\<lambda>rid cx ph sh. cheap c ph" for config cal c n
proof unfold_locales
  fix rid cx ph sh i x w ph' sh'
  assume "moderate c n (Resumes i x) w" and "attempt_resume config cal rid cx x ph sh = Some (ph', sh')"
  then show "cheap c ph'"
    by (cases ph) (auto simp: resume_defs moderate_def split: resume_splits)
qed auto

definition flying :: "attempt_phase \<Rightarrow> int" where
  "flying ph = (if past_check ph then 1 else 0)"

lemma sum_flying: "sum_list (map (flying \<circ> at_phase) xs) = int (length (filter (past_check \<circ> at_phase) xs))"
  by (induction xs) (auto simp: flying_def)

lemma resume_flight:
  assumes "attempt_resume config cal rid cx x ph sh = Some (ph', sh')" and "cheap c ph" and "0 \<le> c"
    and "reserved (sh_spend sh) = 0" and "0 \<le> committed_of sh" and "committed_of sh \<le> i64_max - 5000"
  shows "flying ph' \<le> flying ph \<and> committed_of sh' + c * flying ph' \<le> committed_of sh + c * flying ph
    \<or> committed_of sh' = committed_of sh \<and> flying ph' = 1 \<and> flying ph = 0
      \<and> committed_of sh \<le> REVIEW_SESSION_CEILING_MICROS - OPERATION_WORST_CASE_MICROS"
proof -
  have c: "0 \<le> cost_micros y" "cost_micros y \<le> i64_max" for y by (rule cost_micros_range)+
  note defs = resume_defs committed_of_def trip_def record_spend_def isat_add_def i64_min_def flying_def
    over_def spent_micros_def money_defs
  show ?thesis
  proof (cases ph)
    case (OpenAttempt a wait)
    then show ?thesis using assms c [of "ca_rounded_micros a"]
      by (auto simp: defs i64_max_def split: resume_splits)
  qed (use assms in \<open>auto simp: defs i64_max_def split: resume_splits\<close>)
qed

lemma exec_flight:
  assumes exec: "ll_exec config cal e w = Some w'" and good: "in_flight w' \<le> n"
    and cheap: "\<forall>a \<in> set (w_attempts w). cheap c (at_phase a)" and c: "0 \<le> c"
    and ok: "spend_ok (w_shared w)" and low: "committed_of (w_shared w) \<le> i64_max - 5000"
    and bound: "committed_of (w_shared w) + c * int (in_flight w)
      \<le> REVIEW_SESSION_CEILING_MICROS - OPERATION_WORST_CASE_MICROS + c * int n"
  shows "committed_of (w_shared w') + c * int (in_flight w')
      \<le> REVIEW_SESSION_CEILING_MICROS - OPERATION_WORST_CASE_MICROS + c * int n"
  using exec
proof (cases rule: ll_exec_cases)
  case (arrives rid cx)
  then show ?thesis using bound by (simp add: in_flight_def)
next
  case (passes d)
  then show ?thesis using bound by (simp add: in_flight_def committed_of_def)
next
  case (resumes i x a ph)
  have ch: "cheap c (at_phase a)" using cheap resumes(2,3) by simp
  have r: "reserved (sh_spend (w_shared w)) = 0" "0 \<le> committed_of (w_shared w)" using ok by (auto simp: spend_ok_def)
  have fly: "int (in_flight w') = int (in_flight w) - flying (at_phase a) + flying ph"
    using resumes(2,3,5) sum_flying [of "w_attempts w"] sum_flying [of "w_attempts w'"]
    by (simp add: in_flight_def sum_list_update_int)
  consider "committed_of (w_shared w') + c * flying ph \<le> committed_of (w_shared w) + c * flying (at_phase a)"
    | "committed_of (w_shared w') \<le> REVIEW_SESSION_CEILING_MICROS - OPERATION_WORST_CASE_MICROS"
    using resume_flight [OF resumes(4) ch c r low] by auto
  then show ?thesis
  proof cases
    case 1
    have "c * int (in_flight w') = c * int (in_flight w) - c * flying (at_phase a) + c * flying ph"
      unfolding fly by (simp add: algebra_simps)
    then show ?thesis using 1 bound by linarith
  next
    case 2
    have "c * int (in_flight w') \<le> c * int n" using good c by (simp add: mult_left_mono)
    then show ?thesis using 2 by simp
  qed
qed

lemma flight_bound:
  assumes "ll_reach config cal (moderate c n) w" and c: "0 \<le> c" and small: "20500 + c * int n \<le> i64_max - 5000"
  shows "committed_of (w_shared w) + c * int (in_flight w)
      \<le> REVIEW_SESSION_CEILING_MICROS - OPERATION_WORST_CASE_MICROS + c * int n"
  using assms(1)
proof induction
  case ll_start
  have "0 \<le> c * int n" using c by simp
  then show ?case using accounts_start(3) [of config] by (simp add: in_flight_def world_new_def money_defs)
next
  case (ll_next w e w')
  have "0 \<le> c * int (in_flight w)" using c by simp
  then have low: "committed_of (w_shared w) \<le> i64_max - 5000"
    using ll_next.IH small by (simp add: money_defs)
  have good: "in_flight w' \<le> n" using ll_next.hyps(3) by (simp add: moderate_def)
  show ?case
    by (rule exec_flight [OF ll_next.hyps(2) good cheap.fact_reach [OF ll_next.hyps(1)] c
        conjunct1 [OF spend_covers [OF ll_next.hyps(1)]] low ll_next.IH])
qed

section \<open>The rolling window of a Player\<close>

lemma sum_days_exact:
  assumes "\<forall>k \<in> set ks. cal_first_day cal \<le> end_day - int k"
    and "\<forall>k \<in> set ks. 0 \<le> or_zero (get (cal_day cal (end_day - int k)))" and "0 \<le> acc"
    and "acc + sum_list (map (\<lambda>k. or_zero (get (cal_day cal (end_day - int k)))) ks) \<le> i64_max"
  shows "sum_days cal get end_day ks acc
    = acc + sum_list (map (\<lambda>k. or_zero (get (cal_day cal (end_day - int k)))) ks)"
  using assms
proof (induction ks arbitrary: acc)
  case (Cons k ks)
  let ?v = "or_zero (get (cal_day cal (end_day - int k)))"
  have rest: "0 \<le> sum_list (map (\<lambda>k. or_zero (get (cal_day cal (end_day - int k)))) ks)"
    using Cons.prems(2) by (intro sum_list_nonneg) auto
  have v: "0 \<le> ?v" using Cons.prems(2) by simp
  have add: "isat_add acc ?v = acc + ?v"
    using Cons.prems(3,4) rest v by (intro isat_add_exact) (auto simp: i64_min_def)
  have "(case get (cal_day cal (end_day - int k)) of None \<Rightarrow> acc | Some s \<Rightarrow> isat_add acc s) = acc + ?v"
    using add by (auto simp: or_zero_def split: option.splits)
  moreover have "\<not> end_day - int k < cal_first_day cal" using Cons.prems(1) by simp
  moreover have "sum_days cal get end_day ks (acc + ?v)
    = acc + ?v + sum_list (map (\<lambda>k. or_zero (get (cal_day cal (end_day - int k)))) ks)"
    using Cons.prems v by (intro Cons.IH) auto
  ultimately show ?case by simp
qed simp

lemma bills_disjoint:
  "(\<And>r. \<not> (P r \<and> Q r)) \<Longrightarrow> bills P rs + bills Q rs = bills (\<lambda>r. P r \<or> Q r) rs"
  by (induction rs) auto

definition trailing :: "int \<Rightarrow> nat \<Rightarrow> string \<Rightarrow> op_record \<Rightarrow> bool" where
  "trailing end_day n p r \<longleftrightarrow>
     or_player_id r = p \<and> day_number (or_settled_at r) \<le> end_day \<and> end_day - int n < day_number (or_settled_at r)"

lemma sum_trailing:
  assumes "inj (cal_day cal)"
  shows "sum_list (map (\<lambda>k. bills (\<lambda>r. or_player_id r = p \<and> day_key cal (or_settled_at r) = cal_day cal (end_day - int k)) rs)
      [0..<n]) = bills (trailing end_day n p) rs"
proof (induction n)
  case 0
  have "trailing end_day 0 p = (\<lambda>r. False)" by (rule ext) (auto simp: trailing_def)
  then show ?case by (simp add: bills_def)
next
  case (Suc n)
  let ?Q = "\<lambda>r. or_player_id r = p \<and> day_key cal (or_settled_at r) = cal_day cal (end_day - int n)"
  have same: "?Q r \<longleftrightarrow> or_player_id r = p \<and> day_number (or_settled_at r) = end_day - int n" for r
    using assms by (auto simp: day_key_def dest: injD)
  have "bills (trailing end_day n p) rs + bills ?Q rs = bills (\<lambda>r. trailing end_day n p r \<or> ?Q r) rs"
    by (rule bills_disjoint) (auto simp: same trailing_def)
  moreover have "(\<lambda>r. trailing end_day n p r \<or> ?Q r) = trailing end_day (Suc n) p"
    by (rule ext) (auto simp: same trailing_def)
  ultimately show ?case using Suc.IH by simp
qed

text \<open>The sum over the days, for any ledger whose days hold the bills.\<close>

lemma window_exact:
  assumes inj: "inj (cal_day cal)" and first: "cal_first_day cal \<le> end_day - 29"
    and small: "bills (\<lambda>_. True) rs \<le> i64_max"
    and days: "\<And>d. or_zero (get d) = bills (\<lambda>r. or_player_id r = p \<and> day_key cal (or_settled_at r) = d) rs"
  shows "sum_days cal get end_day [0..<30] 0 = bills (trailing end_day 30 p) rs"
proof -
  have sum: "sum_list (map (\<lambda>k. or_zero (get (cal_day cal (end_day - int k)))) [0..<30])
      = bills (trailing end_day 30 p) rs"
    using sum_trailing [OF inj, of p end_day rs 30] by (simp only: days)
  have "sum_days cal get end_day [0..<30] 0
      = 0 + sum_list (map (\<lambda>k. or_zero (get (cal_day cal (end_day - int k)))) [0..<30])"
  proof (rule sum_days_exact)
    show "\<forall>k \<in> set [0..<30]. cal_first_day cal \<le> end_day - int k" using first by auto
    show "0 + sum_list (map (\<lambda>k. or_zero (get (cal_day cal (end_day - int k)))) [0..<30]) \<le> i64_max"
      unfolding sum using bills_mono [of "trailing end_day 30 p" rs] small by simp
  qed (auto simp: days bills_nonneg)
  then show ?thesis by (simp only: sum)
qed

end
