(* ===== verification/LedgerClaims.thy ===== *)
theory LedgerClaims
  imports LedgerSafety
begin

text \<open>
  The properties of the ledger and of the hosted attempts, with a sample calendar, sample hashes and
  sample attempts on which they are instantiated.
\<close>

section \<open>Samples\<close>

definition sample_day :: "int \<Rightarrow> string" where
  "sample_day d = (if 0 \<le> d then CHR ''p'' # replicate (nat d) CHR ''x'' else CHR ''m'' # replicate (nat (- d)) CHR ''x'')"

lemma sample_day_inj: "inj sample_day"
proof (rule injI)
  fix a b :: int
  assume eq: "sample_day a = sample_day b"
  then have "hd (sample_day a) = hd (sample_day b)" "length (sample_day a) = length (sample_day b)" by simp_all
  then show "a = b" by (auto simp: sample_day_def split: if_splits)
qed

definition sample_calendar :: calendar where
  "sample_calendar =
     \<lparr>cal_day = sample_day, cal_month = (\<lambda>t. sample_day (day_number t div 30)), cal_first_day = - 1000\<rparr>"

definition sample_moment :: "int \<Rightarrow> int" where
  "sample_moment day = day * 86400000000000 + 3600000000000"

definition sample_hashes :: path_hashes where
  "sample_hashes = \<lparr>owner_of = (\<lambda>s. CHR ''o'' # s), request_of = (\<lambda>s. CHR ''r'' # s)\<rparr>"

lemma sample_hashes_ok: "hashes_ok sample_hashes"
  by (simp add: hashes_ok_def sample_hashes_def inj_def)

definition sample_route :: served_route where
  "sample_route = \<lparr>sr_endpoint = None, sr_region = None, sr_routed_service_tier = None,
     sr_verified_permaslug = ''m'', sr_verified_provider = ''Google''\<rparr>"

definition sample_context :: attempt_context where
  "sample_context =
     \<lparr>cx_player_id = ''p'', cx_task = Comment, cx_remaining_deadline = seconds 10, cx_as_of = sample_moment 35,
      cx_fingerprint_digest = ''f'', cx_cancelled = False, cx_in_flight_cancelled = False,
      cx_pin = JudgePassed sample_route\<rparr>"

definition sample_reply :: "int \<Rightarrow> completion_attempt" where
  "sample_reply micros =
     \<lparr>ca_latency = seconds 1, ca_http_status = Some 200, ca_generation_id = Some ''g'', ca_served_model = Some ''m'',
      ca_served_provider = Some ''Google'', ca_prompt_tokens = Some 10, ca_completion_tokens = Some 5,
      ca_reasoning_tokens = None, ca_rounded_micros = Some micros, ca_finish_reason = None, ca_raw_content = None,
      ca_outcome = Completed\<rparr>"

definition sample_bill :: "string \<Rightarrow> int \<Rightarrow> int \<Rightarrow> op_record" where
  "sample_bill rid day micros =
     admitted_record rid (sample_context\<lparr>cx_as_of := sample_moment day\<rparr>) (sample_reply micros) micros None"

lemmas sample_defs = sample_calendar_def sample_moment_def sample_hashes_def sample_context_def
  sample_reply_def sample_bill_def

section \<open>The ledgers\<close>

lemma ledgers_count_bills_parts:
  assumes "distinct (map record_key rs)" and "bills (\<lambda>_. True) rs \<le> i64_max"
    and "inj (cal_day cal)" and "cal_first_day cal \<le> day_number as_of - 29" and "hashes_ok h"
  shows "player_rolling_30_day cal p as_of (fold (settle cal) rs memory_new)
      = bills (trailing (day_number as_of) 30 p) rs"
    and "fs_player_rolling_30_day cal h p as_of (fold (settle_once cal h) rs fs_new)
      = bills (trailing (day_number as_of) 30 p) rs"
    and "global_calendar_month cal as_of (fold (settle cal) rs memory_new)
      = bills (\<lambda>r. month_key cal (or_settled_at r) = month_key cal as_of) rs"
    and "fs_global_calendar_month cal as_of (fold (settle_once cal h) rs fs_new)
      = bills (\<lambda>r. month_key cal (or_settled_at r) = month_key cal as_of) rs"
proof -
  note mem = memory.run_def [of cal rs, symmetric]
  note fsl = firestore_ledger [OF assms(5), of cal]
  note fs = spend_ledger.run_def [OF fsl, of rs, symmetric]
  note window = window_exact [OF assms(3,4,2)]
  have mdays: "memory_day (fold (settle cal) rs memory_new) p d
      = bills (\<lambda>r. or_player_id r = p \<and> day_key cal (or_settled_at r) = d) rs" for d
    unfolding mem by (rule memory.run_day [OF assms(1,2)])
  show "player_rolling_30_day cal p as_of (fold (settle cal) rs memory_new)
      = bills (trailing (day_number as_of) 30 p) rs"
  proof (cases "bt_get (player_days (fold (settle cal) rs memory_new)) p")
    case None
    have "sum_days cal (\<lambda>_. None) (day_number as_of) [0..<30] 0 = bills (trailing (day_number as_of) 30 p) rs"
      by (rule window) (use mdays None in \<open>simp add: memory_day_def or_zero_def\<close>)
    moreover have "sum_days cal (\<lambda>_. None) e ks 0 = 0" for e ks by (induction ks) auto
    ultimately show ?thesis using None by (simp add: player_rolling_30_day_def)
  next
    case (Some days)
    have "sum_days cal (bt_get days) (day_number as_of) [0..<30] 0 = bills (trailing (day_number as_of) 30 p) rs"
      by (rule window) (use mdays Some in \<open>simp add: memory_day_def\<close>)
    then show ?thesis using Some by (simp add: player_rolling_30_day_def)
  qed
  show "fs_player_rolling_30_day cal h p as_of (fold (settle_once cal h) rs fs_new)
      = bills (trailing (day_number as_of) 30 p) rs"
    unfolding fs_player_rolling_30_day_def
    by (rule window) (use spend_ledger.run_day [OF fsl assms(1,2)] in \<open>simp add: fs fs_day_def\<close>)
  show "global_calendar_month cal as_of (fold (settle cal) rs memory_new)
      = bills (\<lambda>r. month_key cal (or_settled_at r) = month_key cal as_of) rs"
    using memory.run_month [OF assms(1,2), of cal] by (simp add: mem global_calendar_month_def memory_month_def)
  show "fs_global_calendar_month cal as_of (fold (settle_once cal h) rs fs_new)
      = bills (\<lambda>r. month_key cal (or_settled_at r) = month_key cal as_of) rs"
    using spend_ledger.run_month [OF fsl assms(1,2)] by (simp add: fs fs_global_calendar_month_def fs_month_def)
qed

text \<open>C26: Both ledgers, after settling records with distinct keys, report the same two counters: the
  trailing thirty days of a Player are the sum of the admitted costs of exactly the records of that Player
  settled on the thirty days that end with the day asked about, and the calendar month is the sum over the
  records of the month. The paths of the Firestore documents are hashes, taken to be injective.\<close>

theorem ledgers_count_bills:
  assumes "distinct (map record_key rs)" and "bills (\<lambda>_. True) rs \<le> i64_max"
    and "inj (cal_day cal)" and "cal_first_day cal \<le> day_number as_of - 29" and "hashes_ok h"
  shows "player_rolling_30_day cal p as_of (fold (settle cal) rs memory_new)
      = bills (trailing (day_number as_of) 30 p) rs
    \<and> fs_player_rolling_30_day cal h p as_of (fold (settle_once cal h) rs fs_new)
      = bills (trailing (day_number as_of) 30 p) rs
    \<and> global_calendar_month cal as_of (fold (settle cal) rs memory_new)
      = bills (\<lambda>r. month_key cal (or_settled_at r) = month_key cal as_of) rs
    \<and> fs_global_calendar_month cal as_of (fold (settle_once cal h) rs fs_new)
      = bills (\<lambda>r. month_key cal (or_settled_at r) = month_key cal as_of) rs"
  by (intro conjI ledgers_count_bills_parts [OF assms])

definition sample_records :: "op_record list" where
  "sample_records = [sample_bill ''a'' 5 100, sample_bill ''b'' 6 20, sample_bill ''c'' 35 3]"

lemma sample_records_ok: "distinct (map record_key sample_records)" "bills (\<lambda>_. True) sample_records \<le> i64_max"
  "bills (trailing 35 30 ''p'') sample_records = 23" "day_number (sample_moment 35) = 35"
  by code_simp+

theorem ledgers_count_bills_witness:
  "player_rolling_30_day sample_calendar ''p'' (sample_moment 35) (fold (settle sample_calendar) sample_records memory_new) = 23
   \<and> fs_player_rolling_30_day sample_calendar sample_hashes ''p'' (sample_moment 35)
     (fold (settle_once sample_calendar sample_hashes) sample_records fs_new) = 23"
proof -
  have inj: "inj (cal_day sample_calendar)" by (simp add: sample_calendar_def sample_day_inj)
  have first: "cal_first_day sample_calendar \<le> day_number (sample_moment 35) - 29"
    by (simp add: sample_calendar_def sample_records_ok)
  show ?thesis
    using ledgers_count_bills [OF sample_records_ok(1,2) inj first sample_hashes_ok, of "''p''"]
    by (simp add: sample_records_ok)
qed

text \<open>The path of a record stays taken.\<close>

lemma fs_apply_taken: "bt_get (fs_records (fs_apply cal h r f)) (record_path h r) = Some (doc_from_record r)"
  by (auto simp: fs_apply_def Let_def bt_get_insert split: option.splits prod.splits)

lemma settle_once_twice: "settle_once cal h r (settle_once cal h r f) = settle_once cal h r f"
  using fs_apply_taken [of cal h r f] by (simp add: settle_once_def)

lemma mutate_settle_result:
  "snd (mutate_settle reports cal h r f) \<in> {f, settle_once cal h r f}"
  "fst (mutate_settle reports cal h r f) = Inr () \<Longrightarrow> snd (mutate_settle reports cal h r f) = settle_once cal h r f"
  by (induction reports) (auto simp: settle_once_def split: commit_report.splits)

fun settle_retries ::
  "(nat \<Rightarrow> commit_report) list \<Rightarrow> calendar \<Rightarrow> path_hashes \<Rightarrow> op_record \<Rightarrow> fs_ledger \<Rightarrow> fs_ledger" where
  "settle_retries [] cal h r f = f"
| "settle_retries (report # rest) cal h r f = settle_retries rest cal h r (snd (fs_settle report cal h r f))"

lemma settle_retries_result: "settle_retries runs cal h r f \<in> {f, settle_once cal h r f}"
proof (induction runs arbitrary: f)
  case (Cons report runs)
  show ?case
    using Cons.IH [of "snd (fs_settle report cal h r f)"]
      mutate_settle_result(1) [of "map report [0..<LEDGER_TRANSACTION_ATTEMPTS]" cal h r f]
    by (auto simp: settle_once_twice fs_settle_def)
qed simp

lemma mutate_settle_conflicts:
  "\<forall>c \<in> set conflicts. c = CommitConflict
    \<Longrightarrow> mutate_settle (conflicts @ CommitOk # later) cal h r f = (Inr (), settle_once cal h r f)"
  by (induction conflicts) (auto simp: settle_once_def)

lemma settlement_exactly_once_parts:
  assumes "n < LEDGER_TRANSACTION_ATTEMPTS" and "good n = CommitOk" and "\<forall>m < n. good m = CommitConflict"
  shows "settle_retries runs cal h r f \<in> {f, settle_once cal h r f}"
    and "fst (fs_settle report cal h r (settle_retries runs cal h r f)) = Inr () \<Longrightarrow>
      snd (fs_settle report cal h r (settle_retries runs cal h r f)) = settle_once cal h r f"
    and "fs_settle good cal h r (settle_retries runs cal h r f) = (Inr (), settle_once cal h r f)"
proof -
  show res: "settle_retries runs cal h r f \<in> {f, settle_once cal h r f}" by (rule settle_retries_result)
  show "snd (fs_settle report cal h r (settle_retries runs cal h r f)) = settle_once cal h r f"
    if "fst (fs_settle report cal h r (settle_retries runs cal h r f)) = Inr ()"
    using mutate_settle_result(2) [OF that [unfolded fs_settle_def]] res by (auto simp: settle_once_twice fs_settle_def)
  have "[0..<LEDGER_TRANSACTION_ATTEMPTS] = [0..<n] @ n # [Suc n..<LEDGER_TRANSACTION_ATTEMPTS]"
    using upt_add_eq_append [of 0 n "LEDGER_TRANSACTION_ATTEMPTS - n"] assms(1) by (simp add: upt_conv_Cons)
  then have "map good [0..<LEDGER_TRANSACTION_ATTEMPTS]
      = map good [0..<n] @ CommitOk # map good [Suc n..<LEDGER_TRANSACTION_ATTEMPTS]"
    using assms(2) by simp
  then show "fs_settle good cal h r (settle_retries runs cal h r f) = (Inr (), settle_once cal h r f)"
    using mutate_settle_conflicts [of "map good [0..<n]"] assms(3) res by (auto simp: fs_settle_def settle_once_twice)
qed

text \<open>C28: However the commits of the settlement transaction go, and however often a caller repeats the
  settlement after an error that may have taken effect, the Firestore ledger bills a record at most once:
  it is unchanged, or holds the record and its counters exactly once. When a settlement reports success it
  does hold them; and a settlement whose commit succeeds within the attempts of the transaction, after
  conflicts only, reports success.\<close>

theorem settlement_exactly_once:
  assumes "n < LEDGER_TRANSACTION_ATTEMPTS" and "good n = CommitOk" and "\<forall>m < n. good m = CommitConflict"
  shows "settle_retries runs cal h r f \<in> {f, settle_once cal h r f}
    \<and> (fst (fs_settle report cal h r (settle_retries runs cal h r f)) = Inr () \<longrightarrow>
        snd (fs_settle report cal h r (settle_retries runs cal h r f)) = settle_once cal h r f)
    \<and> fs_settle good cal h r (settle_retries runs cal h r f) = (Inr (), settle_once cal h r f)"
  by (intro conjI impI settlement_exactly_once_parts [OF assms])

theorem settlement_exactly_once_witness:
  "settle_retries [\<lambda>_. CommitFails True, \<lambda>_. CommitFails False] sample_calendar sample_hashes (sample_bill ''a'' 5 100) fs_new
     \<in> {fs_new, settle_once sample_calendar sample_hashes (sample_bill ''a'' 5 100) fs_new}
   \<and> fs_settle (\<lambda>n. if n < 3 then CommitConflict else CommitOk) sample_calendar sample_hashes (sample_bill ''a'' 5 100)
      (settle_retries [\<lambda>_. CommitFails True] sample_calendar sample_hashes (sample_bill ''a'' 5 100) fs_new)
     = (Inr (), settle_once sample_calendar sample_hashes (sample_bill ''a'' 5 100) fs_new)"
proof -
  let ?good = "\<lambda>n. if n < 3 then CommitConflict else CommitOk"
  have good: "(3::nat) < LEDGER_TRANSACTION_ATTEMPTS" "?good (3::nat) = CommitOk" "\<forall>m < 3. ?good m = CommitConflict"
    by (simp_all add: LEDGER_TRANSACTION_ATTEMPTS_def)
  note facts = settlement_exactly_once [where good = ?good and n = 3, OF good]
  show ?thesis by (rule conjI [OF conjunct1 [OF facts] conjunct2 [OF conjunct2 [OF facts]]])
qed

section \<open>The cooldown\<close>

lemma escalated_floor_exact:
  assumes "MAX_HONORED_RETRY_AFTER \<le> fl * 2 ^ 31"
  shows "escalated_rate_limit_floor fl (sat_add u32_max k 1) = min (fl * 2 ^ k) MAX_HONORED_RETRY_AFTER"
proof -
  have shift: "min (sat_sub (sat_add u32_max k 1) 1) 31 = min k 31" by (simp add: sat_sub_def sat_add_def min_def)
  have small: "MAX_HONORED_RETRY_AFTER \<le> MAX_DURATION" by (simp add: MAX_HONORED_RETRY_AFTER_def MAX_DURATION_def seconds_def)
  show ?thesis
  proof (cases "k \<le> 31")
    case True
    then show ?thesis using shift small by (auto simp: escalated_rate_limit_floor_def Let_def min_def)
  next
    case False
    then have "fl * 2 ^ 31 \<le> fl * 2 ^ k" by (intro mult_le_mono power_increasing) auto
    then have "MAX_HONORED_RETRY_AFTER \<le> fl * 2 ^ k" using assms by (rule order_trans [rotated])
  then show ?thesis using False shift small assms by (simp add: escalated_rate_limit_floor_def Let_def)
  qed
qed

lemma cooldown_bounds_parts:
  assumes "MAX_HONORED_RETRY_AFTER \<le> rate_shaped_retry_delay config * 2 ^ 31"
    and "honor_rate_limit config now retry_after c = (wait, c')"
  shows "wait = min (max (rate_limit_cooldown config retry_after)
        (rate_shaped_retry_delay config * 2 ^ cd_consecutive_429s c)) MAX_HONORED_RETRY_AFTER"
    and "cd_honoured c' = Some wait"
    and "t < now + wait \<Longrightarrow> cooldown_remaining t c' \<noteq> None"
    and "cooldown_remaining t c \<noteq> None \<Longrightarrow> cooldown_remaining t c' \<noteq> None"
    and "cd_consecutive_429s (note_non_rate_limited t c') = 0"
    and "cooldown_remaining t (note_non_rate_limited t c') = cooldown_remaining t c'"
proof -
  note defs = honor_rate_limit_def Let_def
  show "wait = min (max (rate_limit_cooldown config retry_after)
        (rate_shaped_retry_delay config * 2 ^ cd_consecutive_429s c)) MAX_HONORED_RETRY_AFTER"
    using assms(2) escalated_floor_exact [OF assms(1)] by (auto simp: defs min_def max_def)
  show "cd_honoured c' = Some wait" using assms(2) by (auto simp: defs)
  show "cooldown_remaining t c' \<noteq> None" if "t < now + wait"
    using assms(2) that by (auto simp: defs cooldown_remaining_def split: option.splits if_splits)
  show "cooldown_remaining t c' \<noteq> None" if "cooldown_remaining t c \<noteq> None"
    using assms(2) that by (auto simp: defs cooldown_remaining_def split: option.splits if_splits)
  show "cd_consecutive_429s (note_non_rate_limited t c') = 0"
    and "cooldown_remaining t (note_non_rate_limited t c') = cooldown_remaining t c'"
    by (auto simp: note_non_rate_limited_def cooldown_remaining_def Let_def split: option.splits)
qed

text \<open>The cooldown after the rate-limited replies of a list, in a row.\<close>

fun honor_all :: "admission_config \<Rightarrow> (nat \<times> nat option) list \<Rightarrow> cooldown \<Rightarrow> cooldown" where
  "honor_all config [] c = c"
| "honor_all config ((now, retry_after) # replies) c = honor_all config replies (snd (honor_rate_limit config now retry_after c))"

lemma honor_counts: "cd_consecutive_429s (snd (honor_rate_limit config now retry_after c)) = sat_add u32_max (cd_consecutive_429s c) 1"
  by (simp add: honor_rate_limit_def Let_def)

lemma honor_all_count:
  "cd_consecutive_429s c \<le> u32_max \<Longrightarrow> cd_consecutive_429s (honor_all config replies c) = min u32_max (cd_consecutive_429s c + length replies)"
  by (induction config replies c rule: honor_all.induct) (simp_all add: honor_counts sat_add_def)

lemma doubled_at_most:
  fixes cap fl a n :: nat
  assumes "cap \<le> fl * 2 ^ 31"
  shows "min (max a (fl * 2 ^ min u32_max n)) cap = min (max a (fl * 2 ^ n)) cap"
proof (cases "n \<le> u32_max")
  case False
  have large: "cap \<le> fl * 2 ^ k" if "31 \<le> k" for k :: nat
  proof -
    have "fl * 2 ^ 31 \<le> fl * 2 ^ k" using that by (intro mult_le_mono power_increasing) auto
    with assms show ?thesis by (rule order_trans)
  qed
  have "31 \<le> u32_max" by simp
  then have "31 \<le> min u32_max n" "31 \<le> n" using False by linarith+
  from this [THEN large] show ?thesis by (simp only: min_absorb2 max.coboundedI2)
qed (simp add: min_def)

text \<open>C36: Rate-limited replies in a row open longer and longer cooldowns. After \<open>k\<close> of them since the last reply
  of another kind, one more opens a cooldown of the advertised wait or of the floor doubled \<open>k\<close> times, whichever
  is longer, and of at most fifteen minutes, and counts as one more. The cooldown is open until that wait has
  passed, a cooldown that was open is never closed earlier by it, and a reply that is not rate limited restarts
  the doubling but leaves an open cooldown open.\<close>

theorem cooldown_bounds:
  assumes "MAX_HONORED_RETRY_AFTER \<le> rate_shaped_retry_delay config * 2 ^ 31"
    and "c = honor_all config replies (note_non_rate_limited t0 c0)"
    and "honor_rate_limit config now retry_after c = (wait, c')"
  shows "wait = min (max (rate_limit_cooldown config retry_after)
        (rate_shaped_retry_delay config * 2 ^ length replies)) MAX_HONORED_RETRY_AFTER
    \<and> cd_consecutive_429s c' = min u32_max (length replies + 1)
    \<and> cd_honoured c' = Some wait
    \<and> (t < now + wait \<longrightarrow> cooldown_remaining t c' \<noteq> None)
    \<and> (cooldown_remaining t c \<noteq> None \<longrightarrow> cooldown_remaining t c' \<noteq> None)
    \<and> cd_consecutive_429s (note_non_rate_limited t c') = 0
    \<and> cooldown_remaining t (note_non_rate_limited t c') = cooldown_remaining t c'"
proof -
  note parts = cooldown_bounds_parts [OF assms(1,3)]
  have "cd_consecutive_429s (note_non_rate_limited t0 c0) = 0" by (simp add: note_non_rate_limited_def Let_def)
  then have k: "cd_consecutive_429s c = min u32_max (length replies)" unfolding assms(2) by (simp add: honor_all_count)
  have "cd_consecutive_429s c' = min u32_max (length replies + 1)"
    using honor_counts [of config now retry_after c] assms(3) k by (simp add: sat_add_def)
  moreover have "wait = min (max (rate_limit_cooldown config retry_after)
      (rate_shaped_retry_delay config * 2 ^ length replies)) MAX_HONORED_RETRY_AFTER"
    using parts(1) doubled_at_most [OF assms(1)] by (simp add: k)
  ultimately show ?thesis using parts(2-6) by blast
qed

theorem cooldown_bounds_witness:
  "fst (honor_rate_limit conservative_defaults 3 None (honor_all conservative_defaults [(0, None), (1, None), (2, None)] cooldown_new)) = seconds 8"
proof -
  let ?c = "honor_all conservative_defaults [(0, None), (1, None), (2, None)] cooldown_new"
  have "MAX_HONORED_RETRY_AFTER \<le> rate_shaped_retry_delay conservative_defaults * 2 ^ 31"
    by (simp add: MAX_HONORED_RETRY_AFTER_def conservative_defaults_def seconds_def)
  moreover have "?c = honor_all conservative_defaults [(0, None), (1, None), (2, None)] (note_non_rate_limited 0 cooldown_new)"
    by (simp add: note_non_rate_limited_def cooldown_new_def cooldown_remaining_def)
  ultimately show ?thesis
    using cooldown_bounds [OF _ _ prod.collapse [symmetric], of conservative_defaults ?c "[(0, None), (1, None), (2, None)]" 0 cooldown_new 3 None]
    by (simp del: honor_all.simps, simp add: rate_limit_cooldown_def conservative_defaults_def seconds_def MAX_HONORED_RETRY_AFTER_def
        del: honor_all.simps)
qed

section \<open>Hosted attempts\<close>

definition start_attempt :: "nat \<Rightarrow> ll_event list" where
  "start_attempt i = [Resumes i Begins, Resumes i LedgerAnswers, Resumes i LedgerAnswers]"

definition finish_attempt :: "nat \<Rightarrow> int \<Rightarrow> ll_event list" where
  "finish_attempt i micros =
     [Resumes i (ProviderReplies (sample_reply micros)), Resumes i (PinJudged (JudgePassed sample_route) False),
      Resumes i LedgerAnswers, Resumes i LedgerAnswers]"

definition one_attempt :: "ll_event list" where
  "one_attempt = Arrives ''a'' sample_context # start_attempt 0 @ [Resumes 0 SlotGranted]"

definition reached :: "ll_event list \<Rightarrow> ll_world option" where
  "reached es = ll_run conservative_defaults sample_calendar es (world_new conservative_defaults)"

lemma reached_reach: "reached es = Some w \<Longrightarrow> ll_reach conservative_defaults sample_calendar any_event w"
  unfolding reached_def by (rule ll_run_reach [OF ll_start])

text \<open>C34: In every interleaving of hosted attempts the attempts that are inside the provider and the free
  slots together are exactly the configured cap, so no more than the cap are ever in the provider and no slot
  is ever lost, whichever way the attempts end.\<close>

theorem provider_calls_capped:
  assumes "ll_reach config cal any_event w"
  shows "in_provider w + sh_free (w_shared w) = max_concurrent_provider_calls config"
  by (rule slots_conserved [OF assms])

theorem provider_calls_capped_witness:
  "\<exists>w. reached one_attempt = Some w \<and> in_provider w = 1 \<and> sh_free (w_shared w) = 3"
proof -
  have run: "map_option in_provider (reached one_attempt) = Some 1" by code_simp
  then obtain w where w: "reached one_attempt = Some w" "in_provider w = 1" by auto
  have "in_provider w + sh_free (w_shared w) = 4"
    using provider_calls_capped [OF reached_reach [OF w(1)]] by (simp add: conservative_defaults_def)
  then show ?thesis using w by simp
qed

text \<open>C30: The spend of a Review Session accounts for its bills. In every interleaving of its comment attempts,
  whatever fails, what the session has spent is at least what its settled records bill; and while the
  ledger answers, it is exactly the bills of the settled records and of those about to be settled (up to the
  largest \<open>i64\<close>). No denied or cancelled attempt adds to either.\<close>

theorem session_spend_accounts:
  assumes "ll_reach config cal good w"
  shows "min i64_max (all_bills (w_shared w)) \<le> spent_micros (sh_spend (w_shared w))
    \<and> (ll_reach config cal ledger_answers w \<longrightarrow>
        spent_micros (sh_spend (w_shared w)) = min i64_max (session_bills w))"
proof -
  have ok: "spend_ok (w_shared w)" "min i64_max (session_bills w) \<le> committed_of (w_shared w)"
    using spend_covers [OF assms] by auto
  have spent: "spent_micros (sh_spend (w_shared w)) = committed_of (w_shared w)"
    using ok(1) by (auto simp: spend_ok_def spent_micros_def committed_of_def isat_add_def i64_min_def)
  have "all_bills (w_shared w) \<le> session_bills w"
    using sum_pending_nonneg [of "w_attempts w"] by (simp add: session_bills_def)
  then show ?thesis using ok spent spend_equals [of config cal w] by auto
qed

definition two_attempts :: "ll_event list" where
  "two_attempts = one_attempt @ finish_attempt 0 1200 @ [Arrives ''b'' sample_context] @ start_attempt 1
     @ [Resumes 1 SlotGranted] @ take 2 (finish_attempt 1 800)"

theorem session_spend_accounts_witness:
  "\<exists>w. reached two_attempts = Some w \<and> all_bills (w_shared w) = 1200 \<and> 1200 \<le> spent_micros (sh_spend (w_shared w))"
proof -
  have run: "map_option (\<lambda>w. all_bills (w_shared w)) (reached two_attempts) = Some 1200" by code_simp
  then obtain w where w: "reached two_attempts = Some w" "all_bills (w_shared w) = 1200" by auto
  then show ?thesis using session_spend_accounts [OF reached_reach [OF w(1)]] by (auto simp: i64_max_def)
qed

text \<open>C32: How far a Review Session can pass its ceiling. If every provider reply costs at most \<open>c\<close> micros and
  at most \<open>n\<close> attempts of the session are ever between the ceiling check and the recording of their spend at
  once, then the session never spends more than what the last check allowed before its own cost, plus
  \<open>c\<close> for each of those attempts.\<close>

theorem session_overshoot_bounded:
  assumes "ll_reach config cal (moderate c n) w" and "0 \<le> c" and "20500 + c * int n \<le> i64_max - 5000"
  shows "spent_micros (sh_spend (w_shared w))
    \<le> REVIEW_SESSION_CEILING_MICROS - OPERATION_WORST_CASE_MICROS + c * int n"
proof -
  have ok: "spend_ok (w_shared w)" using spend_covers [OF assms(1)] by auto
  have "spent_micros (sh_spend (w_shared w)) = committed_of (w_shared w)"
    using ok by (auto simp: spend_ok_def spent_micros_def committed_of_def isat_add_def i64_min_def)
  moreover have "0 \<le> c * int (in_flight w)" using assms(2) by simp
  ultimately show ?thesis using flight_bound [OF assms] by linarith
qed

fun checked_run :: "(ll_event \<Rightarrow> ll_world \<Rightarrow> bool) \<Rightarrow> ll_event list \<Rightarrow> ll_world \<Rightarrow> ll_world option" where
  "checked_run good [] w = Some w"
| "checked_run good (e # es) w =
     (case ll_exec conservative_defaults sample_calendar e w of
        None \<Rightarrow> None
      | Some w' \<Rightarrow> if good e w' then checked_run good es w' else None)"

lemma checked_run_reach:
  "ll_reach conservative_defaults sample_calendar good w \<Longrightarrow> checked_run good es w = Some w'
    \<Longrightarrow> ll_reach conservative_defaults sample_calendar good w'"
  by (induction es arbitrary: w) (auto split: option.splits if_splits intro: ll_next)

theorem session_overshoot_bounded_witness:
  "\<exists>w. checked_run (moderate 1200 1) two_attempts (world_new conservative_defaults) = Some w
     \<and> spent_micros (sh_spend (w_shared w)) = 2000 \<and> 2000 \<le> (21700 :: int)"
proof -
  have run: "map_option (\<lambda>w. spent_micros (sh_spend (w_shared w)))
      (checked_run (moderate 1200 1) two_attempts (world_new conservative_defaults)) = Some 2000" by code_simp
  then obtain w where w: "checked_run (moderate 1200 1) two_attempts (world_new conservative_defaults) = Some w"
      "spent_micros (sh_spend (w_shared w)) = 2000" by auto
  have "spent_micros (sh_spend (w_shared w)) \<le> 21700"
    using session_overshoot_bounded [OF checked_run_reach [OF ll_start w(1)]] by (simp add: i64_max_def money_defs)
  then show ?thesis using w by simp
qed

definition month_spent :: op_record where
  "month_spent = sample_bill ''earlier'' 34 (GLOBAL_CEILING_MICROS - OPERATION_WORST_CASE_MICROS)"

definition near_ceiling :: ll_world where
  "near_ceiling = \<lparr>w_shared = (shared_new conservative_defaults)
     \<lparr>sh_ledger := settle sample_calendar month_spent memory_new\<rparr>, w_attempts = []\<rparr>"

definition five_attempts :: "ll_event list" where
  "five_attempts =
     map (\<lambda>i. Arrives (CHR ''a'' # replicate i CHR ''x'') (sample_context\<lparr>cx_player_id := CHR ''q'' # replicate i CHR ''x''\<rparr>)) [0..<5]
     @ concat (map start_attempt [0..<5]) @ map (\<lambda>i. Resumes i SlotGranted) [0..<4]
     @ finish_attempt 0 OPERATION_WORST_CASE_MICROS @ [Resumes 4 SlotGranted]
     @ concat (map (\<lambda>i. finish_attempt i OPERATION_WORST_CASE_MICROS) [1..<5])"

text \<open>C33: The bound that the configuration documents, one operation ceiling for each provider slot but one, does not
  hold. The ceilings are read before the wait for a slot, and the spend is recorded after the slot is
  given back. With the default four slots and the month one worst case below the global ceiling, five
  attempts whose costs are within the worst case, four of them in the provider and one waiting, are all
  admitted and take the month further past the global ceiling than the documented bound.\<close>

theorem documented_overshoot_exceeded:
  "\<exists>w. ll_run conservative_defaults sample_calendar five_attempts near_ceiling = Some w
     \<and> list_all (\<lambda>a. case at_phase a of Ended (Inr (OutSettled r _)) \<Rightarrow> or_cost_micros r = OPERATION_WORST_CASE_MICROS | _ \<Rightarrow> False)
         (w_attempts w)
     \<and> global_calendar_month sample_calendar (sample_moment 35) (sh_ledger (w_shared w))
         > GLOBAL_CEILING_MICROS + concurrent_overshoot_bound_micros conservative_defaults"
proof -
  have "(case ll_run conservative_defaults sample_calendar five_attempts near_ceiling of
      None \<Rightarrow> False
    | Some w \<Rightarrow> list_all (\<lambda>a. case at_phase a of Ended (Inr (OutSettled r _)) \<Rightarrow> or_cost_micros r = OPERATION_WORST_CASE_MICROS | _ \<Rightarrow> False)
         (w_attempts w)
     \<and> global_calendar_month sample_calendar (sample_moment 35) (sh_ledger (w_shared w))
         > GLOBAL_CEILING_MICROS + concurrent_overshoot_bound_micros conservative_defaults)"
    by code_simp
  then show ?thesis by (simp split: option.splits)
qed

end
