(* ===== verification/HostTurnClaims.thy ===== *)
theory HostTurnClaims
  imports HostTurnSafety LedgerClaims
begin

text \<open>
  The properties of a HostTurn: it ends within a fixed number of calls, stays within its envelope and
  bills what it spends, answers only what is grounded, and is replayed under its key; and what a failing
  ledger does to the envelope.
\<close>

section \<open>Grounding of an answer\<close>

lemma set_union_cited:
  assumes "literals_closed pre"
  shows "set (union_cited pre returned citations)
    = set pre \<union> (\<Union>c \<in> set citations. \<Union>l \<in> set (cited_literals returned c). insert l (set (chess_tokens l)))"
proof -
  have "set (fold (\<lambda>c. allow_all (cited_literals returned c)) citations g)
      = set g \<union> (\<Union>c \<in> set citations. \<Union>l \<in> set (cited_literals returned c). insert l (set (chess_tokens l)))" for g
    by (induction citations arbitrary: g) (auto simp: set_allow_all)
  then show ?thesis using rebuild_closed [OF assms] by (simp add: union_cited_def allowed_def)
qed

lemma find_member: "find P xs = Some x \<Longrightarrow> x \<in> set xs"
  by (induction xs) (auto split: if_splits)

lemma cited_from_returned:
  "l \<in> set (cited_literals returned c) \<Longrightarrow> \<exists>d \<in> set returned. l \<in> set (rd_literals d)"
  by (auto simp: cited_literals_def dest!: find_member [OF sym] split: option.splits)

text \<open>What the results of the rounds bring in.\<close>

definition dispatched :: "turn_round list \<Rightarrow> capability_dispatch set" where
  "dispatched ros = {x. \<exists>ro \<in> set ros. ro_dispatch ro = Some (Inr x)}"

fun evidence_plies :: "capability_evidence \<Rightarrow> nat set" where
  "evidence_plies (MomentEvidence ply) = {ply}"
| "evidence_plies (MomentListEvidence moments) = set moments"
| "evidence_plies (EvaluatedLineEvidence commits) = {}"
| "evidence_plies (LearningMaterialEvidence ply) = {ply}"

fun evidence_moves :: "capability_evidence \<Rightarrow> string set" where
  "evidence_moves (EvaluatedLineEvidence commits) = set commits"
| "evidence_moves _ = {}"

lemma set_push: "set (push_new y xs) = insert y (set xs)"
  by (auto simp: push_new_def)

lemma set_push_new: "set (fold push_new ys xs) = set xs \<union> set ys"
  by (induction ys arbitrary: xs) (auto simp: set_push)

lemma collect_refs_sets:
  "collect_refs ev plies ids = (plies', ids')
    \<Longrightarrow> set plies' = set plies \<union> evidence_plies ev \<and> set ids' = set ids \<union> evidence_moves ev"
  by (cases ev) (auto simp: set_push_new set_push)

definition from_dispatched :: "turn_setup \<Rightarrow> turn_round list \<Rightarrow> turn \<Rightarrow> bool" where
  "from_dispatched u ros t \<longleftrightarrow>
     set (tn_allowed_plies t) \<subseteq> {oc_ply u} \<union> (\<Union>x \<in> dispatched ros. evidence_plies (cd_evidence x))
     \<and> set (tn_alternative_move_ids t) \<subseteq> set (oc_alternative_move_ids u) \<union> (\<Union>x \<in> dispatched ros. evidence_moves (cd_evidence x))
     \<and> (\<Union>d \<in> set (tn_returned t). set (rd_literals d)) \<subseteq> (\<Union>x \<in> dispatched ros. set (cd_literals x))"

lemma take_step_dispatched:
  assumes "from_dispatched u ros t" and "ro \<in> set ros"
  shows "from_dispatched u ros (turn_of (take_step u ro step t))"
proof (cases step)
  case (CallStep call)
  show ?thesis
  proof (cases "ro_dispatch ro")
    case None
    then show ?thesis using assms CallStep by (simp add: Let_def from_dispatched_def)
  next
    case (Some r)
    show ?thesis
    proof (cases r)
      case (Inl message)
      then show ?thesis using assms CallStep Some by (simp add: Let_def from_dispatched_def failed_dispatch_def)
    next
      case (Inr x)
      have x: "x \<in> dispatched ros" using assms(2) Some Inr by (auto simp: dispatched_def)
      obtain plies ids where refs: "collect_refs (cd_evidence x) (tn_allowed_plies t) (tn_alternative_move_ids t) = (plies, ids)"
        by fastforce
      note sets = collect_refs_sets [OF refs]
      show ?thesis using assms(1) x CallStep Some Inr refs sets
        by (auto simp: Let_def from_dispatched_def)
    qed
  qed
next
  case (AnswerStep answer citations focus shown)
  then show ?thesis using assms(1) by (simp add: Let_def from_dispatched_def split: sum.splits)
next
  case (RefuseStep reason)
  then show ?thesis using assms(1) by simp
qed

lemma round_dispatched:
  assumes "ro \<in> set ros" and "from_dispatched u ros t"
  shows "from_dispatched u ros (turn_of (turn_round_step u ro t))"
proof -
  have same: "from_dispatched u ros (t'\<lparr>tn_observations := ob\<rparr>) = from_dispatched u ros t'" for t' ob
    by (simp add: from_dispatched_def)
  have base: "from_dispatched u ros t'" if "tn_allowed_plies t' = tn_allowed_plies t"
      "tn_alternative_move_ids t' = tn_alternative_move_ids t" "tn_returned t' = tn_returned t" for t'
    using assms(2) that by (simp add: from_dispatched_def)
  have step: "from_dispatched u ros (turn_of (take_step u ro st t'))" if "tn_allowed_plies t' = tn_allowed_plies t"
      "tn_alternative_move_ids t' = tn_alternative_move_ids t" "tn_returned t' = tn_returned t" for t' st
    by (rule take_step_dispatched [OF base [OF that] assms(1)])
  have after: "from_dispatched u ros (turn_of (after_reply u ro remaining (t\<lparr>tn_labels := l\<rparr>)))" for remaining l
    unfolding after_reply_def Let_def
    by (auto split: prod.splits option.splits intro!: base step)
  show ?thesis
    unfolding turn_round_step_def Let_def
    by (auto split: sum.splits option.splits intro!: base after)
qed

lemma turn_completed:
  assumes "turn_loop u ros t = Some (TurnCompleted answer focus show, t')"
  shows "\<exists>citations. ground_host_turn_answer (tu_san u) (union_cited (oc_facts_grounding u) (tn_returned t') citations)
      answer focus show (answer_refs_of u t') = Inr ()"
  using assms
proof (induction ros arbitrary: t)
  case (Cons ro ros)
  have step: "take_step u ro st t1 = Ends (TurnCompleted answer focus show) t' \<Longrightarrow> ?case" for st t1
    by (cases st) (auto simp: Let_def split: if_splits option.splits sum.splits prod.splits)
  have after: "after_reply u ro remaining t1 = Ends (TurnCompleted answer focus show) t' \<Longrightarrow> ?case" for remaining t1
    unfolding after_reply_def Let_def
    by (auto split: prod.splits option.splits if_splits intro: step)
  show ?case
  proof (cases "turn_round_step u ro t")
    case (Ends terminal t1)
    then have "turn_round_step u ro t = Ends (TurnCompleted answer focus show) t'" using Cons.prems by simp
    then show ?thesis
      unfolding turn_round_step_def Let_def by (auto split: sum.splits option.splits if_splits intro: after)
  next
    case (Continues t1)
    then show ?thesis using Cons.IH [of t1] Cons.prems by simp
  qed
qed simp

section \<open>The turn\<close>

text \<open>C21: A HostTurn always ends. Whatever the provider, the capabilities, the ledger and the clock do, five
  rounds of its loop are enough, it makes at most four provider calls, at most three of them count as model
  calls, and at most one is the repetition of a transport fault.\<close>

theorem host_turn_ends:
  assumes "5 \<le> length ros"
  shows "\<exists>terminal t. turn_loop u ros (turn_start u s c) = Some (terminal, t)
    \<and> length (ob_steps (tn_observations t)) \<le> 4
    \<and> int (ob_model_calls (tn_observations t)) \<le> HOST_TURN_MAX_STEPS
    \<and> length (ob_steps (tn_observations t)) \<le> ob_model_calls (tn_observations t) + 1"
proof -
  have start: "calls_ok (tn_observations (turn_start u s c))"
    using observations_new_calls by (simp add: turn_start_def)
  obtain terminal t where run: "turn_loop u ros (turn_start u s c) = Some (terminal, t)"
    using turn_loop_returns [OF start, of ros u] assms by auto
  have "calls_ok (tn_observations t)"
    by (rule turn_loop_invariant [where keep = "\<lambda>t. calls_ok (tn_observations t)", OF _ start run]) (rule round_calls)
  then show ?thesis using run calls_at_most by (fastforce simp: calls_ok_def retried_def)
qed

text \<open>C20: A completed HostTurn says only what is grounded. Every token of its answer that reads as a move or a
  square is among the literals of the open moment or of a capability result of this turn; the answer has no URL,
  no internal vocabulary and no internal identifier; and the moment it focuses and the line it shows are
  pre-loaded or came with a capability result of this turn: an alternative move is one of the open moment or of a
  result, and the engine's best line or the refutation of the played move is shown only when the open moment
  has it.\<close>

theorem host_turn_answer_grounded:
  assumes "turn_loop u ros (turn_start u s c) = Some (TurnCompleted answer focus line, t)"
    and "literals_closed (oc_facts_grounding u)"
  shows "(\<forall>token \<in> set (chess_tokens answer). tu_san u token \<longrightarrow>
        token \<in> set (oc_facts_grounding u)
        \<or> (\<exists>x \<in> dispatched ros. \<exists>l \<in> set (cd_literals x). token = l \<or> token \<in> set (chess_tokens l)))
    \<and> \<not> contains_url answer \<and> \<not> contains_internal_player_facing_text answer \<and> \<not> contains_internal_identifier answer
    \<and> (\<forall>ply. focus = Some ply \<longrightarrow> ply = oc_ply u \<or> (\<exists>x \<in> dispatched ros. ply \<in> evidence_plies (cd_evidence x)))
    \<and> (\<forall>m. line = Some (ShowAlternativeMove m) \<longrightarrow>
        m \<in> set (oc_alternative_move_ids u) \<or> (\<exists>x \<in> dispatched ros. m \<in> evidence_moves (cd_evidence x)))
    \<and> (line = Some ShowEngineBest \<longrightarrow> oc_engine_best_allowed u)
    \<and> (line = Some ShowPlayedMoveRefutation \<longrightarrow> oc_played_refutation_allowed u)"
proof -
  have "from_dispatched u ros (turn_start u s c)" by (simp add: from_dispatched_def turn_start_def)
  then have from_d: "from_dispatched u ros t"
    using turn_loop_invariant [OF _ _ assms(1), of "from_dispatched u ros"] round_dispatched by blast
  obtain citations where ok: "ground_host_turn_answer (tu_san u)
      (union_cited (oc_facts_grounding u) (tn_returned t) citations) answer focus line (answer_refs_of u t) = Inr ()"
    using turn_completed [OF assms(1)] by blast
  have lits: "token \<in> set (oc_facts_grounding u)
      \<or> (\<exists>x \<in> dispatched ros. \<exists>l \<in> set (cd_literals x). token = l \<or> token \<in> set (chess_tokens l))"
    if "token \<in> set (chess_tokens answer)" "tu_san u token" for token
  proof -
    have "token \<in> set (union_cited (oc_facts_grounding u) (tn_returned t) citations)"
      using ok that by (auto simp: ground_host_turn_answer_def grounding_validate_iff split: if_splits)
    then consider "token \<in> set (oc_facts_grounding u)"
      | c l where "l \<in> set (cited_literals (tn_returned t) c)" "token = l \<or> token \<in> set (chess_tokens l)"
      using set_union_cited [OF assms(2)] by auto
    then show ?thesis
    proof cases
      case 2
      then have "l \<in> (\<Union>d \<in> set (tn_returned t). set (rd_literals d))" using cited_from_returned by blast
      then have "l \<in> (\<Union>x \<in> dispatched ros. set (cd_literals x))"
        using from_d unfolding from_dispatched_def by blast
      then show ?thesis using 2(2) by blast
    qed simp
  qed
  have focus: "ply = oc_ply u \<or> (\<exists>x \<in> dispatched ros. ply \<in> evidence_plies (cd_evidence x))" if "focus = Some ply" for ply
    using ok that from_d by (auto simp: ground_host_turn_answer_def answer_refs_of_def from_dispatched_def split: if_splits)
  have line: "m \<in> set (oc_alternative_move_ids u) \<or> (\<exists>x \<in> dispatched ros. m \<in> evidence_moves (cd_evidence x))"
    if "line = Some (ShowAlternativeMove m)" for m
    using ok that from_d by (auto simp: ground_host_turn_answer_def answer_refs_of_def from_dispatched_def split: if_splits)
  have loaded: "(line = Some ShowEngineBest \<longrightarrow> oc_engine_best_allowed u)
      \<and> (line = Some ShowPlayedMoveRefutation \<longrightarrow> oc_played_refutation_allowed u)"
    using ok by (auto simp: ground_host_turn_answer_def answer_refs_of_def split: if_splits)
  show ?thesis
    using ok lits focus line loaded by (auto simp: ground_host_turn_answer_def split: if_splits)
qed

section \<open>The envelope\<close>

definition plain_spend :: "spend \<Rightarrow> bool" where
  "plain_spend s \<longleftrightarrow> reserved s = 0 \<and> 0 \<le> committed s \<and> committed s \<le> i64_max - 20000"

lemma reserve_plain:
  assumes "plain_spend s"
  shows "try_reserve HOST_TURN_ENVELOPE_MICROS s =
    (if committed s \<le> 5000 then (True, s\<lparr>reserved := HOST_TURN_ENVELOPE_MICROS\<rparr>) else (False, s))"
  using assms by (auto simp: plain_spend_def try_reserve_def isat_add_def i64_min_def i64_max_def money_defs)

lemma release_plain:
  "plain_spend s \<Longrightarrow> release_reservation HOST_TURN_ENVELOPE_MICROS (s\<lparr>reserved := HOST_TURN_ENVELOPE_MICROS\<rparr>) = s"
  by (auto simp: plain_spend_def release_reservation_def money_defs)

lemma envelope_cases:
  assumes "plain_spend s" and "admit_host_turn_envelope player global now c s = (r, s1)"
  shows "(r = Inr None \<longrightarrow> s1 = s\<lparr>reserved := HOST_TURN_ENVELOPE_MICROS\<rparr> \<and> committed s \<le> 5000)
    \<and> (\<forall>reason. r = Inr (Some reason) \<longrightarrow> s1 = s)
    \<and> (\<forall>e. r = Inl e \<longrightarrow> player = Inl e \<or> global = Inl e)"
  using assms(2) release_plain [OF assms(1)]
  unfolding admit_host_turn_envelope_def reserve_plain [OF assms(1)]
  by (cases player; cases global) (auto simp: admit_rest_def split: if_splits sum.splits option.splits)

lemma turn_start_envelope:
  "plain_spend s \<Longrightarrow> envelope_ok (committed s) (turn_start u (s\<lparr>reserved := HOST_TURN_ENVELOPE_MICROS\<rparr>) c)"
  using observations_new_calls
  by (auto simp: envelope_ok_def turn_start_def observations_new_def plain_spend_def)

lemma turn_envelope:
  assumes "turn_loop u ros (turn_start u (s\<lparr>reserved := HOST_TURN_ENVELOPE_MICROS\<rparr>) c) = Some (terminal, t)"
    and "plain_spend s" and "committed s \<le> 5000" and "\<forall>ro \<in> set ros. reply_cost ro \<le> OPERATION_CEILING_MICROS"
  shows "envelope_ok (committed s) t"
proof (rule turn_loop_invariant [where keep = "envelope_ok (committed s)", OF _ turn_start_envelope [OF assms(2)] assms(1)])
  fix ro t
  assume "ro \<in> set ros" and "envelope_ok (committed s) t"
  then show "envelope_ok (committed s) (turn_of (turn_round_step u ro t))"
    using assms(2-4) by (intro round_envelope) (auto simp: plain_spend_def)
qed

lemma record_bill:
  "bills (\<lambda>_. True) [host_turn_record u rid as_of latency terminal t] = max 0 (ob_total_cost (tn_observations t))"
  by (auto simp: bills_def billed_def host_turn_record_def host_turn_decision_def Let_def max_def split: option.splits)

lemma denied_turn_bill: "bills (\<lambda>_. True) [denied_host_turn_record u rid as_of reason honoured] = 0"
  by (simp add: bills_def billed_def denied_host_turn_record_def)

lemma bills_snoc: "bills Q (rs @ [r]) = bills Q rs + bills Q [r]"
  by (simp add: bills_def)

abbreviation host_bills :: "host_state \<Rightarrow> int" where
  "host_bills st \<equiv> bills (\<lambda>_. True) (op_records (hs_ledger st))"

lemma settle_bills: "bills (\<lambda>_. True) (op_records (settle_or_log cal settles r l))
    = bills (\<lambda>_. True) (op_records l) + (if settles then bills (\<lambda>_. True) [r] else 0)"
  unfolding settle_or_log_def by (simp only: records_settle bills_snoc if_distrib [of op_records] if_distrib
      [of "bills (\<lambda>_. True)"] split: if_split) simp

text \<open>What running a turn does to the spend and the bills.\<close>

lemma run_host_turn_spend:
  assumes run: "run_host_turn cal env u (s\<lparr>reserved := HOST_TURN_ENVELOPE_MICROS\<rparr>) st = Some (terminal, t, st')"
    and plain: "plain_spend s" and low: "committed s \<le> 5000"
    and cheap: "\<forall>ro \<in> set (te_rounds env). reply_cost ro \<le> OPERATION_CEILING_MICROS"
  shows "\<exists>cost. 0 \<le> cost \<and> cost \<le> HOST_TURN_ENVELOPE_MICROS
    \<and> envelope_release (hs_spend st') = \<lparr>committed = committed s + cost, reserved = 0\<rparr>
    \<and> host_bills st' = host_bills st + (if te_settles env then cost else 0)
    \<and> hs_host_turns st' = hs_host_turns st \<and> tn_denial t \<noteq> Some ReviewSessionCeiling"
proof -
  obtain loop: "turn_loop u (te_rounds env) (turn_start u (s\<lparr>reserved := HOST_TURN_ENVELOPE_MICROS\<rparr>) (hs_cooldown st))
        = Some (terminal, t)"
      and spend: "hs_spend st' = tn_spend t" "hs_host_turns st' = hs_host_turns st"
      and ledger: "hs_ledger st' = settle_or_log cal (te_settles env)
        (host_turn_record u (te_request_id env) (te_settled_as_of env) (te_latency env) terminal t) (hs_ledger st)"
    using run by (auto simp: run_host_turn_def Let_def split: option.splits)
  have ok: "envelope_ok (committed s) t" by (rule turn_envelope [OF loop plain low cheap])
  let ?cost = "ob_total_cost (tn_observations t)"
  have cost: "0 \<le> ?cost" "?cost \<le> HOST_TURN_ENVELOPE_MICROS"
    using ok calls_at_most [of "tn_observations t"] by (auto simp: envelope_ok_def money_defs)
  have "envelope_release (tn_spend t) = \<lparr>committed = committed s + ?cost, reserved = 0\<rparr>"
    using ok cost by (cases "tn_spend t") (auto simp: envelope_ok_def envelope_release_def release_reservation_def money_defs)
  moreover have "host_bills st' = host_bills st + (if te_settles env then ?cost else 0)"
    unfolding ledger settle_bills record_bill using cost(1) by simp
  ultimately show ?thesis using cost spend ok by (auto simp: envelope_ok_def)
qed

section \<open>A request\<close>

text \<open>Where a request can end: before the envelope, at it, and after the turn it admits.\<close>

lemma start_host_turn_cases:
  assumes "start_host_turn cal env rq st = Some (events, st')"
  obtains (before) "hs_spend st' = hs_spend st" "hs_ledger st' = hs_ledger st"
  | (envelope) r s u where "te_setup env = Some u"
      "admit_host_turn_envelope (te_player env) (te_global env) (te_now env) (hs_cooldown st) (hs_spend st) = (r, s)"
      "r \<noteq> Inr None" "hs_spend st' = s"
      "\<forall>e. r = Inl e \<longrightarrow> hs_ledger st' = hs_ledger st"
      "\<forall>reason. r = Inr (Some reason) \<longrightarrow> hs_ledger st' = settle_or_log cal (te_settles env)
         (denied_host_turn_record u (te_request_id env) (te_as_of env) reason (cd_honoured (hs_cooldown st))) (hs_ledger st)"
      "hs_host_turns st' = hs_host_turns st"
  | (turned_away) s where
      "admit_host_turn_envelope (te_player env) (te_global env) (te_now env) (hs_cooldown st) (hs_spend st) = (Inr None, s)"
      "hs_spend st' = envelope_release s" "hs_ledger st' = hs_ledger st"
  | (ran) s u terminal t st1 where "te_setup env = Some u"
      "admit_host_turn_envelope (te_player env) (te_global env) (te_now env) (hs_cooldown st) (hs_spend st) = (Inr None, s)"
      "run_host_turn cal env u s st = Some (terminal, t, st1)"
      "events = [EventAccepted] @ map EventProgress (tn_labels t) @ [terminal_event terminal]"
      "st' = st1\<lparr>hs_spend := envelope_release (hs_spend st1),
         hs_host_turns := bt_insert (rq_idempotency_key rq) terminal (hs_host_turns st1)\<rparr>"
proof -
  obtain r s where adm:
    "admit_host_turn_envelope (te_player env) (te_global env) (te_now env) (hs_cooldown st) (hs_spend st) = (r, s)"
    by fastforce
  show thesis
  proof (cases "bt_get (hs_host_turns st) (rq_idempotency_key rq)")
    case (Some terminal)
    then show thesis using assms before by (simp add: start_host_turn_def)
  next
    case None
    note run = assms [unfolded start_host_turn_def None option.case adm]
    show thesis
    proof (cases "te_setup env")
      case None
      then show thesis using run before by (auto simp: unavailable_def split: if_splits)
    next
      case (Some u)
      show thesis
      proof (cases r)
        case (Inl e)
        show thesis using run Some Inl before envelope [OF Some adm] by (auto simp: unavailable_def split: if_splits)
      next
        case (Inr d)
        show thesis
        proof (cases d)
          case (Some reason)
          show thesis using run \<open>te_setup env = Some u\<close> Inr Some before envelope [OF \<open>te_setup env = Some u\<close> adm]
            by (auto simp: unavailable_def split: if_splits)
        next
          case None
          have adm': "admit_host_turn_envelope (te_player env) (te_global env) (te_now env) (hs_cooldown st) (hs_spend st)
              = (Inr None, s)" using adm Inr None by simp
          show thesis using run \<open>te_setup env = Some u\<close> Inr None before turned_away [OF adm'] ran [OF \<open>te_setup env = Some u\<close> adm']
            by (auto simp: unavailable_def split: if_splits option.splits)
        qed
      qed
    qed
  qed
qed

text \<open>C19: A HostTurn request leaves the session's spend exact. If the ledger answers the reads of the envelope and
  every reply of the provider costs at most the operation ceiling, then however the request ends no
  reservation is left behind, the session has spent at most the envelope more and not past its ceiling if it was
  within it, and a settlement that succeeds adds to the ledger exactly the bills that the session has spent.\<close>

theorem host_turn_within_envelope:
  assumes "start_host_turn cal env rq st = Some (events, st')"
    and "plain_spend (hs_spend st)" and "\<not> isl (te_player env)" and "\<not> isl (te_global env)"
    and "\<forall>ro \<in> set (te_rounds env). reply_cost ro \<le> OPERATION_CEILING_MICROS"
  shows "\<exists>cost. 0 \<le> cost \<and> cost \<le> HOST_TURN_ENVELOPE_MICROS
    \<and> hs_spend st' = \<lparr>committed = committed (hs_spend st) + cost, reserved = 0\<rparr>
    \<and> committed (hs_spend st') \<le> max (committed (hs_spend st)) REVIEW_SESSION_CEILING_MICROS
    \<and> host_bills st' = host_bills st + (if te_settles env then cost else 0)"
  using assms(1)
proof (cases rule: start_host_turn_cases)
  case before
  then show ?thesis using assms(2)
    by (intro exI [of _ 0]) (cases "hs_spend st", auto simp: plain_spend_def money_defs)
next
  case (envelope r s u)
  note cases = envelope_cases [OF assms(2) envelope(2)]
  obtain reason where r: "r = Inr (Some reason)"
    using cases envelope(3) assms(3,4) by (cases r) (auto simp: isl_def)
  then have "hs_spend st' = hs_spend st" using cases envelope(4) by simp
  moreover have "hs_ledger st' = settle_or_log cal (te_settles env)
         (denied_host_turn_record u (te_request_id env) (te_as_of env) reason (cd_honoured (hs_cooldown st))) (hs_ledger st)"
    using envelope(6) r by blast
  then have "host_bills st' = host_bills st" by (simp only: settle_bills denied_turn_bill if_cancel add_0_right)
  ultimately show ?thesis using assms(2)
    by (intro exI [of _ 0]) (cases "hs_spend st", auto simp: plain_spend_def money_defs)
next
  case (turned_away s)
  have "s = (hs_spend st)\<lparr>reserved := HOST_TURN_ENVELOPE_MICROS\<rparr>"
    using envelope_cases [OF assms(2) turned_away(1)] by simp
  then have "hs_spend st' = hs_spend st"
    using turned_away(2) release_plain [OF assms(2)] by (simp add: envelope_release_def)
  then show ?thesis using turned_away(3) assms(2)
    by (intro exI [of _ 0]) (cases "hs_spend st", auto simp: plain_spend_def money_defs)
next
  case (ran s u terminal t st1)
  have s: "s = (hs_spend st)\<lparr>reserved := HOST_TURN_ENVELOPE_MICROS\<rparr>" "committed (hs_spend st) \<le> 5000"
    using envelope_cases [OF assms(2) ran(2)] by auto
  obtain cost where "0 \<le> cost" "cost \<le> HOST_TURN_ENVELOPE_MICROS"
      "envelope_release (hs_spend st1) = \<lparr>committed = committed (hs_spend st) + cost, reserved = 0\<rparr>"
      "host_bills st1 = host_bills st + (if te_settles env then cost else 0)"
    using run_host_turn_spend [OF ran(3) [unfolded s(1)] assms(2) s(2) assms(5)] by blast
  then show ?thesis using ran(5) s(2) by (intro exI [of _ cost]) (auto simp: money_defs)
qed

definition envelope_leaked :: "host_state \<Rightarrow> bool" where
  "envelope_leaked st \<longleftrightarrow> reserved (hs_spend st) = HOST_TURN_ENVELOPE_MICROS \<and> committed (hs_spend st) = 0"

text \<open>C22: A failing ledger costs the session its HostTurns. When a read of the ledger fails while the envelope is
  being admitted, the reservation is never released: from a session that has spent nothing, every later request
  under a key not yet answered is refused, whatever its environment, and nothing it does changes that.\<close>

theorem envelope_leaks:
  assumes "hs_spend st = spend_new" and "te_player env = Inl e" and "start_host_turn cal env rq st = Some (events, st')"
    and "events = [EventUnavailable PersistenceUnavailable True]"
  shows "envelope_leaked st'
    \<and> (\<forall>cal2 env2 rq2 events2 st2. start_host_turn cal2 env2 rq2 st' = Some (events2, st2) \<and>
         bt_get (hs_host_turns st') (rq_idempotency_key rq2) = None
         \<longrightarrow> events2 = [EventUnavailable LanguageLayerUnavailable False] \<and> envelope_leaked st2)"
proof -
  have leak: "admit_host_turn_envelope (te_player env) (te_global env) (te_now env) (hs_cooldown st) (hs_spend st)
      = (Inl e, \<lparr>committed = 0, reserved = HOST_TURN_ENVELOPE_MICROS\<rparr>)"
    using assms(1,2) by (simp add: admit_host_turn_envelope_def try_reserve_def spend_new_def isat_add_def i64_min_def
        i64_max_def money_defs admit_rest_def)
  have l: "envelope_leaked st'"
    using assms(3,4) unfolding start_host_turn_def leak
    by (auto simp: unavailable_def envelope_leaked_def split: option.splits if_splits)
  have refuse: "admit_host_turn_envelope p g n c (hs_spend st') = (Inr (Some ReviewSessionCeiling), hs_spend st')" for p g n c
    using l by (auto simp: envelope_leaked_def admit_host_turn_envelope_def try_reserve_def isat_add_def i64_min_def
        i64_max_def money_defs)
  have "events2 = [EventUnavailable LanguageLayerUnavailable False] \<and> envelope_leaked st2"
    if "start_host_turn cal2 env2 rq2 st' = Some (events2, st2)"
      "bt_get (hs_host_turns st') (rq_idempotency_key rq2) = None" for cal2 env2 rq2 events2 st2
    using that l unfolding start_host_turn_def refuse
    by (auto simp: unavailable_def envelope_leaked_def split: option.splits if_splits)
  then show ?thesis using l by blast
qed

text \<open>Any number of requests of the session, under any keys and in any environments.\<close>

fun host_requests :: "calendar \<Rightarrow> (turn_env \<times> turn_request) list \<Rightarrow> host_state \<Rightarrow> host_state option" where
  "host_requests cal [] st = Some st"
| "host_requests cal ((env, rq) # rqs) st = (case start_host_turn cal env rq st of None \<Rightarrow> None | Some (_, st') \<Rightarrow> host_requests cal rqs st')"

lemma host_turn_recorded:
  assumes "start_host_turn cal env rq st = Some (EventAccepted # events, st')"
  obtains terminal where "bt_get (hs_host_turns st') (rq_idempotency_key rq) = Some terminal"
    and "last (EventAccepted # events) = terminal_event terminal"
proof (cases "bt_get (hs_host_turns st) (rq_idempotency_key rq)")
  case (Some terminal)
  then have "events = [terminal_event terminal]" "st' = st" using assms by (auto simp: start_host_turn_def)
  with Some show ?thesis by (intro that) simp_all
next
  case None
  obtain r s where adm:
    "admit_host_turn_envelope (te_player env) (te_global env) (te_now env) (hs_cooldown st) (hs_spend st) = (r, s)"
    by fastforce
  show ?thesis
    using assms that unfolding start_host_turn_def None adm
    by (auto simp: unavailable_def bt_get_insert split: option.splits if_splits sum.splits)
qed

lemma host_turn_kept:
  assumes "start_host_turn cal env rq st = Some (events, st')" and "bt_get (hs_host_turns st) k = Some terminal"
  shows "bt_get (hs_host_turns st') k = Some terminal"
proof -
  obtain r s where adm:
    "admit_host_turn_envelope (te_player env) (te_global env) (te_now env) (hs_cooldown st) (hs_spend st) = (r, s)"
    by fastforce
  show ?thesis
    using assms unfolding start_host_turn_def adm
    by (auto simp: unavailable_def run_host_turn_def bt_get_insert Let_def split: option.splits if_splits sum.splits prod.splits)
qed

lemma host_requests_keep:
  "host_requests cal rqs st = Some st' \<Longrightarrow> bt_get (hs_host_turns st) k = Some terminal \<Longrightarrow> bt_get (hs_host_turns st') k = Some terminal"
  by (induction cal rqs st rule: host_requests.induct) (auto dest: host_turn_kept split: option.splits)

text \<open>C23: A HostTurn is idempotent under its key. Once a request has run its turn, then after any other requests of
  the session a request with the same key is answered by the same terminal event and changes nothing: no
  reservation, no provider call, no record.\<close>

theorem host_turn_replayed:
  assumes "start_host_turn cal env rq st = Some (EventAccepted # events, st')"
    and "host_requests cal2 between st' = Some st2"
    and "rq_idempotency_key rq2 = rq_idempotency_key rq"
  shows "start_host_turn cal3 env2 rq2 st2 = Some ([EventAccepted, last (EventAccepted # events)], st2)"
proof -
  obtain terminal where t: "bt_get (hs_host_turns st') (rq_idempotency_key rq) = Some terminal"
    "last (EventAccepted # events) = terminal_event terminal"
    by (rule host_turn_recorded [OF assms(1)])
  have "bt_get (hs_host_turns st2) (rq_idempotency_key rq2) = Some terminal"
    unfolding assms(3) by (rule host_requests_keep [OF assms(2) t(1)])
  then show ?thesis unfolding t(2) by (simp add: start_host_turn_def)
qed

section \<open>Witnesses\<close>

definition sample_flat :: flat_step where
  "sample_flat =
     \<lparr>fl_kind = lit ''answer'', fl_capability = [], fl_ply = 0, fl_next = False, fl_classification = [], fl_moves = [],
      fl_opponent_replies = [], fl_answer = lit ''Nf3 was good'', fl_citations = [], fl_focus_moment = 3,
      fl_show_line_kind = [], fl_alternative_move_id = [], fl_refusal_reason = []\<rparr>"

definition sample_setup :: turn_setup where
  "sample_setup =
     \<lparr>tu_san = (\<lambda>t. t = lit ''Nf3''), tu_decode = (\<lambda>raw. Some sample_flat), tu_line_identity = (\<lambda>_ _ _. []),
      tu_error_json = (\<lambda>m. m), tu_config = conservative_defaults, tu_pin_model = ''m'', tu_pin_endpoint_tag = ''google-vertex'',
      tu_player_id = ''p'', tu_fingerprint_digest = ''f'', tu_started = 0, oc_ply = 3,
      oc_facts_grounding = [lit ''Nf3'', lit ''f3''], oc_engine_best_allowed = True, oc_played_refutation_allowed = False,
      oc_alternative_move_ids = []\<rparr>"

definition sample_round :: turn_round where
  "sample_round =
     \<lparr>ro_cancelled = False, ro_now = 1, ro_player = Inr 0, ro_global = Inr 0, ro_admit_now = 2, ro_slot_in_time = True,
      ro_reply = Some ((sample_reply 1200)\<lparr>ca_raw_content := Some []\<rparr>), ro_reply_now = 3,
      ro_lookups = (\<lambda>_. (5, sample_lookup None)), ro_cancelled_after = False, ro_now_after = 4, ro_dispatch_now = 5,
      ro_dispatch = None\<rparr>"

definition sample_rounds :: "turn_round list" where
  "sample_rounds = replicate 5 sample_round"

definition sample_env :: turn_env where
  "sample_env =
     \<lparr>te_bound = True, te_setup = Some sample_setup, te_has_ledger = True, te_as_of = sample_moment 35, te_player = Inr 0,
      te_global = Inr 0, te_now = 0, te_leased = True, te_registered = True, te_rounds = sample_rounds,
      te_request_id = ''r'', te_settled_as_of = sample_moment 35, te_latency = 5, te_settles = True,
      te_final_global = Inr 0\<rparr>"

definition sample_request :: turn_request where
  "sample_request = \<lparr>rq_idempotency_key = ''k'', rq_message = lit ''Why Nf3?'', rq_prior_turns = []\<rparr>"

definition sample_host :: host_state where
  "sample_host = \<lparr>hs_spend = spend_new, hs_cooldown = cooldown_new, hs_ledger = memory_new, hs_host_turns = [], hs_tripped = 0\<rparr>"

theorem host_turn_ends_witness:
  "\<exists>terminal t. turn_loop sample_setup sample_rounds (turn_start sample_setup spend_new cooldown_new) = Some (terminal, t)
    \<and> length (ob_steps (tn_observations t)) \<le> 4"
  using host_turn_ends [of sample_rounds sample_setup spend_new cooldown_new] by (auto simp: sample_rounds_def)

definition sample_turn_start :: turn where
  "sample_turn_start = turn_start sample_setup (spend_new\<lparr>reserved := HOST_TURN_ENVELOPE_MICROS\<rparr>) cooldown_new"

theorem host_turn_answer_grounded_witness:
  "\<exists>t. turn_loop sample_setup sample_rounds sample_turn_start
      = Some (TurnCompleted (lit ''Nf3 was good'') (Some 3) None, t) \<and> \<not> contains_url (lit ''Nf3 was good'')"
proof -
  have run: "map_option fst (turn_loop sample_setup sample_rounds sample_turn_start)
      = Some (TurnCompleted (lit ''Nf3 was good'') (Some 3) None)" by code_simp
  then obtain t where t: "turn_loop sample_setup sample_rounds sample_turn_start
      = Some (TurnCompleted (lit ''Nf3 was good'') (Some 3) None, t)" by auto
  have closed: "literals_closed (oc_facts_grounding sample_setup)" unfolding literals_closed_def by code_simp
  show ?thesis
    using host_turn_answer_grounded [OF t [unfolded sample_turn_start_def] closed] t by blast
qed

theorem host_turn_within_envelope_witness:
  "\<exists>events st'. start_host_turn sample_calendar sample_env sample_request sample_host = Some (events, st')
    \<and> reserved (hs_spend st') = 0 \<and> committed (hs_spend st') \<le> HOST_TURN_ENVELOPE_MICROS"
proof -
  have "start_host_turn sample_calendar sample_env sample_request sample_host \<noteq> None"
  proof -
    have "map_option (\<lambda>_. ()) (start_host_turn sample_calendar sample_env sample_request sample_host) = Some ()" by code_simp
    then show ?thesis by auto
  qed
  then obtain events st' where run: "start_host_turn sample_calendar sample_env sample_request sample_host = Some (events, st')"
    by auto
  have plain: "plain_spend (hs_spend sample_host)" by (simp add: plain_spend_def sample_host_def spend_new_def i64_max_def)
  have cheap: "\<forall>ro \<in> set (te_rounds sample_env). reply_cost ro \<le> OPERATION_CEILING_MICROS" by code_simp
  have "committed (hs_spend sample_host) = 0" by (simp add: sample_host_def spend_new_def)
  then show ?thesis using host_turn_within_envelope [OF run plain _ _ cheap] run by (auto simp: sample_env_def)
qed

theorem envelope_leaks_witness:
  "\<exists>events st'. start_host_turn sample_calendar (sample_env\<lparr>te_player := Inl LedgerUnavailable\<rparr>) sample_request sample_host
      = Some (events, st') \<and> envelope_leaked st'"
proof -
  have run: "map_option fst (start_host_turn sample_calendar (sample_env\<lparr>te_player := Inl LedgerUnavailable\<rparr>) sample_request
      sample_host) = Some [EventUnavailable PersistenceUnavailable True]" by code_simp
  then obtain st' where "start_host_turn sample_calendar (sample_env\<lparr>te_player := Inl LedgerUnavailable\<rparr>) sample_request
      sample_host = Some ([EventUnavailable PersistenceUnavailable True], st')" by auto
  then show ?thesis
    using envelope_leaks [of sample_host "sample_env\<lparr>te_player := Inl LedgerUnavailable\<rparr>" LedgerUnavailable sample_calendar
        sample_request] by (auto simp: sample_host_def)
qed

theorem host_turn_replayed_witness:
  "\<exists>st2. host_requests sample_calendar [(sample_env, sample_request), (sample_env, sample_request\<lparr>rq_idempotency_key := ''l''\<rparr>)]
       sample_host = Some st2 \<and> length (hs_host_turns st2) = 2 \<and>
     start_host_turn sample_calendar sample_env sample_request st2
      = Some ([EventAccepted, EventCompleted (lit ''Nf3 was good'') (Some 3) None], st2)"
proof -
  let ?other = "sample_request\<lparr>rq_idempotency_key := ''l''\<rparr>"
  have run: "case start_host_turn sample_calendar sample_env sample_request sample_host of
      Some (events, st') \<Rightarrow> events = [EventAccepted, EventProgress Writing, EventCompleted (lit ''Nf3 was good'') (Some 3) None] \<and>
        (case host_requests sample_calendar [(sample_env, ?other)] st' of Some st2 \<Rightarrow> length (hs_host_turns st2) = 2 | None \<Rightarrow> False)
    | None \<Rightarrow> False" by code_simp
  then obtain st' st2 where st': "start_host_turn sample_calendar sample_env sample_request sample_host
      = Some (EventAccepted # [EventProgress Writing, EventCompleted (lit ''Nf3 was good'') (Some 3) None], st')"
    and st2: "host_requests sample_calendar [(sample_env, ?other)] st' = Some st2" "length (hs_host_turns st2) = 2"
    by (auto split: option.splits prod.splits)
  have "host_requests sample_calendar [(sample_env, sample_request), (sample_env, ?other)] sample_host = Some st2"
    using st' st2(1) by simp
  with st2(2) host_turn_replayed [OF st' st2(1) refl] show ?thesis by auto
qed

end
