(* ===== verification/Spec2Isabelle.thy ===== *)
theory Spec2Isabelle
  imports SelectorResult TrafficLimits AdmissionSafety BetaGuarantees HostTurnClaims
begin

text \<open>
  This development models the core of ChenChess: the Rust coach engine under
  \<open>services/coach-engine\<close>, which reviews chess games, selects the moments worth a comment, answers a
  Player's questions through a language model and admits beta testers. File names below are relative to
  \<open>services/coach-engine/src\<close> unless they start with \<open>crates/\<close>.

  \<^bold>\<open>How the parts interact.\<close> A request for a review passes admission (\<open>Admission\<close>, with the windows of
  \<open>Traffic\<close>). The pipeline's candidates for a game go through the selector (\<open>Selector\<close>), which keeps the
  moments that get a comment. A question opens a HostTurn (\<open>HostTurn\<close>), which reserves an envelope of money
  with the session's spend, makes hosted attempts admitted and billed by the ledger (\<open>Ledger\<close>,
  \<open>LedgerStore\<close>, \<open>LedgerAttempts\<close>), has the serving model verified (\<open>PinVerification\<close>) and releases an
  answer only when its chess literals are grounded (\<open>Grounding\<close>). Beta Access (\<open>BetaTypes\<close> to \<open>BetaRuntime\<close>)
  decides which accounts reach any of it.

  \<^bold>\<open>Shared ground.\<close> \<open>Prelude\<close> holds saturating and checked integers, results as sums, orderings and the
  stable sort with the locale \<open>comparator\<close>; \<open>OrdMap\<close> the \<open>BTreeMap\<close> as sorted association lists behind the
  locale \<open>ordered_map\<close>.

  \<^item> Pipeline: \<open>Domain\<close> (\<open>crates/pipeline/src/domain.rs\<close>, \<open>position_phase.rs\<close>), \<open>Selector\<close>
    (\<open>critical_moment_selector.rs\<close>). \<open>SelectorCollapse\<close>, \<open>SelectorPlan\<close> and \<open>SelectorResult\<close> prove that the
    dynamic program finds an optimal feasible list of a specification that knows nothing of its states, and
    that the trace tells the truth.
  \<^item> Admission: \<open>Traffic\<close> (\<open>review_session_processor/admission/player_traffic.rs\<close>, \<open>deployment_ceiling.rs\<close>),
    \<open>Admission\<close> (\<open>admission.rs\<close>, \<open>admission/engine.rs\<close>). Acquisitions are tasks of an inductive step
    relation over a semaphore given by the locale \<open>semaphore\<close>. \<open>TrafficLimits\<close> shows the limits of every
    window, and for any requests in between (\<open>serve\<close>) what a refused player is told and what becomes of a
    repeated import; \<open>AdmissionSafety\<close> shows slots, queues and claims in every interleaving.
  \<^item> Beta Access: \<open>BetaText\<close>, \<open>BetaTypes\<close>, \<open>BetaIssuer\<close>, \<open>BetaStore\<close>, \<open>BetaRedemption\<close>, \<open>BetaRuntime\<close>
    (\<open>beta_access.rs\<close> and \<open>beta_access/\<close>). \<open>BetaInvariant\<close> and \<open>BetaSteps\<close> hold the consistency of the
    database and its preservation by every transaction; \<open>BetaReach\<close> the reachable databases;
    \<open>BetaProperties\<close> the locale \<open>store_invariant\<close>, whose interpretations carry three invariants
    (consistency, \<open>evolves\<close> for invitations, \<open>addressed\<close> for requests) to every operation of the runtime;
    \<open>BetaClaims\<close> and \<open>BetaGuarantees\<close> what follows under any interference and faults.
  \<^item> Language Layer: \<open>PinVerification\<close> (\<open>pin_verification.rs\<close>), \<open>Ledger\<close> and \<open>LedgerAttempts\<close>
    (\<open>language_layer_ledger.rs\<close>), \<open>LedgerStore\<close> (\<open>language_layer_ledger/firestore.rs\<close>), with \<open>LedgerSafety\<close>
    and \<open>LedgerClaims\<close>: money, slots and bills in every interleaving of attempts, and the cooldown after any
    number of rate-limited replies (\<open>honor_all\<close>).
  \<^item> HostTurn: \<open>Grounding\<close> (\<open>chess_literal_grounding.rs\<close>, \<open>review_session_host/grounding.rs\<close>, the gate of
    \<open>critical_moment_comment.rs\<close>), \<open>HostTurnStep\<close> (\<open>review_session_host/step.rs\<close>, \<open>capabilities.rs\<close>),
    \<open>HostTurn\<close> (\<open>review_session_processor/host_turn.rs\<close>), with \<open>HostTurnSafety\<close> and \<open>HostTurnClaims\<close>: the
    end, the envelope and the grounding of one turn, and replays after any other requests of the session
    (\<open>host_requests\<close>).

  \<^bold>\<open>Conventions.\<close> Rust integers are naturals or integers with their bound written out, an instant or a
  duration is a number of its unit (milliseconds in \<open>Traffic\<close>, otherwise nanoseconds), text is the list of
  its scalar values or, where it has been checked to be ASCII, a \<open>string\<close>. A result is a sum with the
  error on the left. A handler that awaits is cut at its awaits: what others do there and what the call
  answers are arguments (\<open>store_env\<close>, \<open>turn_env\<close>), or the handler is a task of a step relation.

  \<^bold>\<open>Bounds and fuel.\<close> A Firestore transaction is attempted a fixed number of times, as in the source. A
  HostTurn runs at most five rounds and four provider calls, and its loop recurses on the rounds that are
  left; five of them are enough for it to end, whatever they bring. Pin Verification makes at most three
  lookups. No other loop needs a bound: they recurse on lists.

  \<^bold>\<open>Parameters.\<close> Hashes, message authentication and sealing (\<open>ring\<close>, \<open>sha2\<close>), the parser of moves of
  \<open>shakmaty\<close>, the calendar of \<open>chrono\<close>, JSON, the semaphore of \<open>tokio\<close>, and what the providers answer. What
  a property needs of them is a named hypothesis with a witness (\<open>crypto_ok\<close>, \<open>hashes_ok\<close>, the locale
  \<open>semaphore\<close>).

  \<^bold>\<open>Idealisations.\<close> The clock that stamps requests does not go back from one to the next: the source reads
  it before it takes the lock, so two requests at once may be stamped out of order. The hashes of document
  paths are injective, which SHA-256 is only in practice. One HostTurn of a session runs at a time, on a
  session that has been found; the other attempts that share the session's spend are modelled in
  \<open>LedgerAttempts\<close> but not interleaved with a HostTurn.

  \<^bold>\<open>Not modelled.\<close> Everything that works on chess positions through \<open>shakmaty\<close> (the detectors and the replay
  of decision explanations, review facts, causal facts), the processes of Stockfish and Maia, the
  prompts and requests of the Language Layer, the rendering of comments, game imports over HTTP, the
  residency, prefetch and channels of the Review Session processor, the Review Analysis cache, quality
  capture and evaluation, authentication and routes, the local runtime, and the Web application: most
  of it is input and output, or code whose meaning rests on libraries that are not in the repository.
  Learning Plans with their catalog and knowledge graph, and Daily Coaching, are outside this development.
\<close>

end
